theory Spec2Isabelle
  imports Complex_Main "HOL-Library.Product_Lexorder"
begin

section \<open>JSON values\<close>

text \<open>
  Configuration values, registry defaults and schemas are what \<^verbatim>\<open>json.load\<close> produces:
  \<^verbatim>\<open>None\<close>, booleans, numbers, strings, lists and dicts with string keys. A Python dict
  holds each key once and iterates in insertion order, so an object is an association
  list in insertion order, and \<open>wf_json\<close> says that the keys of every object in a value
  are distinct. Numbers are integers here: \<^verbatim>\<open>deep_merge\<close> never looks inside a scalar.
\<close>

datatype json =
    JNull
  | JBool bool
  | JNum int
  | JStr string
  | JArr "json list"
  | JObj "(string \<times> json) list"

fun wf_json :: "json \<Rightarrow> bool" where
  "wf_json (JArr xs) = list_all wf_json xs"
| "wf_json (JObj kvs) = (distinct (map fst kvs) \<and> list_all (\<lambda>(k, v). wf_json v) kvs)"
| "wf_json j = True"

fun is_obj :: "json \<Rightarrow> bool" where
  "is_obj (JObj kvs) = True"
| "is_obj j = False"

text \<open>
  \<^verbatim>\<open>d[k] = v\<close> on a dict: an existing key keeps its position, a new key goes last.
  \<^verbatim>\<open>d.get(k)\<close> is \<^verbatim>\<open>None\<close> for a missing key.
\<close>

fun dict_set :: "'k \<Rightarrow> 'v \<Rightarrow> ('k \<times> 'v) list \<Rightarrow> ('k \<times> 'v) list" where
  "dict_set k v [] = [(k, v)]"
| "dict_set k v (p # ps) = (if fst p = k then (k, v) # ps else p # dict_set k v ps)"

definition dict_get :: "(string \<times> json) list \<Rightarrow> string \<Rightarrow> json" where
  "dict_get d k = (case map_of d k of None \<Rightarrow> JNull | Some v \<Rightarrow> v)"

section \<open>Documents, registry, store\<close>

text \<open>
  The dataclass \<^verbatim>\<open>ConfigDoc\<close>; its field \<^verbatim>\<open>value\<close> is \<open>val\<close> here. The module globals
  \<^verbatim>\<open>_store\<close> (a list of documents, in append order) and \<^verbatim>\<open>_registry\<close> (component key to
  an entry with an optional \<^verbatim>\<open>default\<close> and an optional \<^verbatim>\<open>schema\<close>) are passed explicitly.
  Writing the store to its file (\<^verbatim>\<open>save_store\<close>) is outside the model.
\<close>

record ConfigDoc =
  tenant :: string
  env :: string
  componentKey :: string
  scopeType :: string
  scopeKey :: string
  version :: int
  val :: json
  createdAt :: real
  createdBy :: string

record registry_entry =
  entry_default :: "json option"
  entry_schema :: "json option"

type_synonym registry = "string \<rightharpoonup> registry_entry"

type_synonym store = "ConfigDoc list"

section \<open>Helpers: merge and selection\<close>

fun deep_merge :: "json \<Rightarrow> json \<Rightarrow> json" where
  "deep_merge base JNull = base"
| "deep_merge (JObj b) (JObj ov) =
     JObj (fold (\<lambda>(k, v) out. dict_set k (deep_merge (dict_get b k) v) out) ov b)"
| "deep_merge base override = override"

text \<open>\<^verbatim>\<open>deepcopy\<close> of a JSON value is the value.\<close>

definition default_for :: "registry \<Rightarrow> string \<Rightarrow> json" where
  "default_for reg component_key =
     (case reg component_key of
        None \<Rightarrow> JObj []
      | Some entry \<Rightarrow> (case entry_default entry of None \<Rightarrow> JObj [] | Some d \<Rightarrow> d))"

text \<open>
  The jsonschema library is a parameter: \<open>iter_errors schema value\<close> lists the violations
  as pairs of a path and a message, and \<open>path_repr\<close> prints \<^verbatim>\<open>list(e.path)\<close>. Paths are
  compared by \<^verbatim>\<open>sorted\<close>, which is stable; their order is the linear order of the type.
\<close>

definition validate_value ::
  "registry \<Rightarrow> (json \<Rightarrow> json \<Rightarrow> ('p::linorder \<times> string) list) \<Rightarrow> ('p \<Rightarrow> string) \<Rightarrow>
   string \<Rightarrow> json \<Rightarrow> string list option" where
  "validate_value reg iter_errors path_repr component_key v =
     (case reg component_key of
        None \<Rightarrow> None
      | Some entry \<Rightarrow>
          (case entry_schema entry of
             None \<Rightarrow> None
           | Some schema \<Rightarrow>
               (let errors = sort_key fst (iter_errors schema v)
                in if errors = [] then None
                   else Some (map (\<lambda>e. path_repr (fst e) @ '': '' @ snd e) errors))))"

definition score :: "ConfigDoc \<Rightarrow> nat \<times> nat" where
  "score doc =
     (if scopeType doc = ''global'' then (0, 0)
      else if scopeType doc = ''page'' then (1, length (scopeKey doc))
      else if scopeType doc = ''route'' then (2, length (scopeKey doc))
      else (0, 0))"

definition sort_scopes :: "ConfigDoc list \<Rightarrow> ConfigDoc list" where
  "sort_scopes scopes = sort_key score scopes"

subsection \<open>fnmatch\<close>

text \<open>
  \<^verbatim>\<open>fnmatch(name, pat)\<close> of the Python standard library, on a POSIX system (where
  \<^verbatim>\<open>normcase\<close> changes nothing), after \<^verbatim>\<open>fnmatch.translate\<close>: the pattern is translated
  piece by piece and must match the whole name. \<^verbatim>\<open>*\<close> matches any run of characters,
  \<^verbatim>\<open>?\<close> any single character, \<^verbatim>\<open>[seq]\<close> any character of seq, \<^verbatim>\<open>[!seq]\<close> any character
  not in seq, with ranges \<^verbatim>\<open>lo-hi\<close>; a \<^verbatim>\<open>[\<close> that is never closed stands for itself, and
  so does every other character, \<^verbatim>\<open>/\<close> included.

  A bracket expression is cut into chunks at the hyphens that make ranges (the first
  character of the expression, or the first two of a negated one, and the two characters
  after a range hyphen are never range hyphens; a hyphen at the very end stands for
  itself). Then the empty ranges are removed from right to left, with both their ends,
  and only then is a leading \<^verbatim>\<open>!\<close> read as negation.
\<close>

datatype cls_item = One char | Range char char

datatype glob_tok = Star | AnyChar | Lit char | Class bool "cls_item list"

fun range_chunks :: "nat \<Rightarrow> string \<Rightarrow> string \<Rightarrow> string list" where
  "range_chunks skip acc [] = [acc]"
| "range_chunks skip acc (c # cs) =
     (if skip = 0 \<and> c = CHR ''-'' then
        (if cs = [] then [acc @ [c]] else acc # range_chunks 2 [] cs)
      else range_chunks (skip - 1) (acc @ [c]) cs)"

fun drop_empty_ranges :: "string list \<Rightarrow> string list" where
  "drop_empty_ranges (c1 # c2 # rest) =
     (case drop_empty_ranges (c2 # rest) of
        [] \<Rightarrow> [c1]
      | c2' # rest' \<Rightarrow>
          (case rev c1 of
             [] \<Rightarrow> c1 # c2' # rest'
           | lo # front \<Rightarrow>
               (case c2' of
                  [] \<Rightarrow> c1 # c2' # rest'
                | hi # back \<Rightarrow>
                    if (of_char lo :: nat) > of_char hi then (rev front @ back) # rest'
                    else c1 # c2' # rest')))"
| "drop_empty_ranges chunks = chunks"

fun chunk_items :: "string list \<Rightarrow> cls_item list" where
  "chunk_items [] = []"
| "chunk_items [c] = map One c"
| "chunk_items (c1 # c2 # rest) =
     (case rev c1 of
        [] \<Rightarrow> chunk_items (c2 # rest)
      | lo # front \<Rightarrow>
          (case c2 of
             [] \<Rightarrow> map One c1 @ chunk_items rest
           | hi # back \<Rightarrow> map One (rev front) @ Range lo hi # chunk_items (back # rest)))"

definition split_class :: "string \<Rightarrow> (string \<times> string) option" where
  "split_class s =
     (let neg = (case s of c # _ \<Rightarrow> c = CHR ''!'' | [] \<Rightarrow> False);
          s1 = (if neg then tl s else s);
          lead = (case s1 of c # _ \<Rightarrow> c = CHR '']'' | [] \<Rightarrow> False);
          s2 = (if lead then tl s1 else s1);
          body = takeWhile (\<lambda>c. c \<noteq> CHR '']'') s2;
          rest = dropWhile (\<lambda>c. c \<noteq> CHR '']'') s2
      in if rest = [] then None
         else Some ((if neg then ''!'' else []) @ (if lead then '']'' else []) @ body, tl rest))"

definition class_of :: "string \<Rightarrow> glob_tok" where
  "class_of stuff =
     (let skip = (case stuff of [] \<Rightarrow> 1 | c # _ \<Rightarrow> if c = CHR ''!'' then 2 else 1);
          chunks = drop_empty_ranges (range_chunks skip [] stuff)
      in case chunks of
           [] \<Rightarrow> Class False []
         | c0 # others \<Rightarrow>
             (case c0 of
                [] \<Rightarrow> Class False (chunk_items chunks)
              | x # c0' \<Rightarrow>
                  if x = CHR ''!'' then
                    (if c0' = [] \<and> others \<noteq> [] then Class True (One CHR ''-'' # chunk_items others)
                     else Class True (chunk_items (c0' # others)))
                  else Class False (chunk_items chunks)))"

function translate :: "string \<Rightarrow> glob_tok list" where
  "translate [] = []"
| "translate (c # pat) =
     (if c = CHR ''*'' then Star # translate pat
      else if c = CHR ''?'' then AnyChar # translate pat
      else if c = CHR ''['' then
        (case split_class pat of
           None \<Rightarrow> Lit c # translate pat
         | Some (stuff, rest) \<Rightarrow> class_of stuff # translate rest)
      else Lit c # translate pat)"
  by pat_completeness auto
termination
proof (relation "measure length")
  show "wf (measure length)" by simp
next
  fix c :: char and pat x y :: string and x2 :: "string \<times> string"
  assume "split_class pat = Some x2" and "(x, y) = x2"
  then have sc: "split_class pat = Some (x, y)" by simp
  have a: "length (dropWhile P s) - Suc 0 \<le> length s" for P and s :: string
    using length_dropWhile_le [of P s] by arith
  have b: "length (dropWhile P s) - Suc 0 \<le> Suc (length s)" for P and s :: string
    using a [of P s] by arith
  have c: "length (dropWhile P s) - Suc 0 \<le> Suc (Suc (length s))" for P and s :: string
    using a [of P s] by arith
  from sc have "length y \<le> length pat"
    by (auto simp: split_class_def Let_def a b c split: if_splits list.splits)
  then show "(y, c # pat) \<in> measure length" by simp
qed simp_all

fun in_item :: "char \<Rightarrow> cls_item \<Rightarrow> bool" where
  "in_item x (One c) = (x = c)"
| "in_item x (Range lo hi) = ((of_char lo :: nat) \<le> of_char x \<and> (of_char x :: nat) \<le> of_char hi)"

fun glob_match :: "glob_tok list \<Rightarrow> string \<Rightarrow> bool" where
  "glob_match [] s = (s = [])"
| "glob_match (Star # ts) s =
     (glob_match ts s \<or> (case s of [] \<Rightarrow> False | x # s' \<Rightarrow> glob_match (Star # ts) s'))"
| "glob_match (AnyChar # ts) s = (case s of [] \<Rightarrow> False | x # s' \<Rightarrow> glob_match ts s')"
| "glob_match (Lit c # ts) s = (case s of [] \<Rightarrow> False | x # s' \<Rightarrow> x = c \<and> glob_match ts s')"
| "glob_match (Class neg items # ts) s =
     (case s of [] \<Rightarrow> False
      | x # s' \<Rightarrow> (neg \<noteq> list_ex (in_item x) items) \<and> glob_match ts s')"

definition fnmatch :: "string \<Rightarrow> string \<Rightarrow> bool" where
  "fnmatch name pat = glob_match (translate pat) name"

definition match_route :: "string \<Rightarrow> string \<Rightarrow> bool" where
  "match_route pattern route = fnmatch route pattern"

subsection \<open>Latest version per scope\<close>

definition doc_scope :: "ConfigDoc \<Rightarrow> string \<times> string" where
  "doc_scope d = (scopeType d, scopeKey d)"

definition candidates :: "store \<Rightarrow> string \<times> string \<times> string \<Rightarrow> ConfigDoc list" where
  "candidates st identity =
     (case identity of (tenant', env', component_key) \<Rightarrow>
        filter (\<lambda>d. tenant d = tenant' \<and> env d = env' \<and> componentKey d = component_key) st)"

text \<open>One round of the loop over the candidates, on the dict \<^verbatim>\<open>latest\<close>.\<close>

definition latest_step ::
  "ConfigDoc \<Rightarrow> ((string \<times> string) \<times> ConfigDoc) list \<Rightarrow> ((string \<times> string) \<times> ConfigDoc) list" where
  "latest_step d latest =
     (let key = doc_scope d in
      case map_of latest key of
        None \<Rightarrow> dict_set key d latest
      | Some prev \<Rightarrow> if version d > version prev then dict_set key d latest else latest)"

definition latest_versions_for :: "store \<Rightarrow> string \<times> string \<times> string \<Rightarrow> ConfigDoc list" where
  "latest_versions_for st identity = map snd (fold latest_step (candidates st identity) [])"

subsection \<open>Effective value of a component\<close>

text \<open>\<^verbatim>\<open>x and ...\<close> with an optional string \<open>x\<close>: \<^verbatim>\<open>None\<close> and the empty string are false.\<close>

definition given :: "string option \<Rightarrow> (string \<Rightarrow> bool) \<Rightarrow> bool" where
  "given x p = (case x of None \<Rightarrow> False | Some s \<Rightarrow> s \<noteq> [] \<and> p s)"

definition apply_docs :: "json \<Rightarrow> ConfigDoc list \<Rightarrow> json" where
  "apply_docs effective ds = fold (\<lambda>d e. deep_merge e (val d)) ds effective"

definition effective_for_component ::
  "registry \<Rightarrow> store \<Rightarrow> string \<Rightarrow> string \<Rightarrow> string \<Rightarrow> string option \<Rightarrow> string option \<Rightarrow> json" where
  "effective_for_component reg st tenant' env' component_key route page =
     (let effective = default_for reg component_key;
          docs = latest_versions_for st (tenant', env', component_key);
          globals = filter (\<lambda>d. scopeType d = ''global'') docs;
          pages = filter (\<lambda>d. scopeType d = ''page'' \<and> given page (\<lambda>p. scopeKey d = p)) docs;
          routes = filter (\<lambda>d. scopeType d = ''route'' \<and> given route (\<lambda>r. match_route (scopeKey d) r)) docs;
          effective = apply_docs effective (sort_scopes globals);
          effective = apply_docs effective (sort_scopes pages);
          effective = apply_docs effective (sort_scopes routes)
      in effective)"

section \<open>API\<close>

text \<open>
  The body of a PUT request, with the keys the handler reads, and the handler's
  outcome: the value it returns or the \<^verbatim>\<open>HTTPException\<close> it raises, with the store
  after the call. \<open>now\<close> is the reading of \<^verbatim>\<open>time.time()\<close>.
\<close>

record upsert_body =
  body_tenant :: "string option"
  body_env :: "string option"
  body_scopeType :: "string option"
  body_scopeKey :: "string option"
  body_value :: "json option"
  body_updatedBy :: "string option"

datatype http_error = HTTPException nat string "string list"

definition body_get :: "'a option \<Rightarrow> 'a \<Rightarrow> 'a" where
  "body_get field dflt = (case field of None \<Rightarrow> dflt | Some x \<Rightarrow> x)"

definition or_else :: "string option \<Rightarrow> string \<Rightarrow> string" where
  "or_else q dflt = (case q of None \<Rightarrow> dflt | Some s \<Rightarrow> if s = [] then dflt else s)"

definition py_max :: "int list \<Rightarrow> int \<Rightarrow> int" where
  "py_max xs dflt = (case xs of [] \<Rightarrow> dflt | x # rest \<Rightarrow> fold max rest x)"

text \<open>The identity and scope a PUT request writes to.\<close>

definition upsert_target ::
  "string \<Rightarrow> string option \<Rightarrow> string option \<Rightarrow> upsert_body \<Rightarrow>
   string \<times> string \<times> string \<times> string \<times> string" where
  "upsert_target component_key tenant_q env_q body =
     (body_get (body_tenant body) (or_else tenant_q ''default''),
      body_get (body_env body) (or_else env_q ''dev''),
      component_key,
      body_get (body_scopeType body) ''global'',
      body_get (body_scopeKey body) ''*'')"

definition doc_target :: "ConfigDoc \<Rightarrow> string \<times> string \<times> string \<times> string \<times> string" where
  "doc_target d = (tenant d, env d, componentKey d, scopeType d, scopeKey d)"

definition existing_versions :: "store \<Rightarrow> string \<times> string \<times> string \<times> string \<times> string \<Rightarrow> int list" where
  "existing_versions st target = map version (filter (\<lambda>d. doc_target d = target) st)"

definition upsert_component ::
  "registry \<Rightarrow> (json \<Rightarrow> json \<Rightarrow> ('p::linorder \<times> string) list) \<Rightarrow> ('p \<Rightarrow> string) \<Rightarrow>
   store \<Rightarrow> real \<Rightarrow> string \<Rightarrow> string option \<Rightarrow> string option \<Rightarrow> upsert_body \<Rightarrow>
   (http_error + int) \<times> store" where
  "upsert_component reg iter_errors path_repr st now component_key tenant_q env_q body =
     (case upsert_target component_key tenant_q env_q body of
        (tenant', env', ck, scope_type, scope_key) \<Rightarrow>
          (let v = body_get (body_value body) (JObj []);
               errors = validate_value reg iter_errors path_repr component_key v
           in if errors \<noteq> None \<and> errors \<noteq> Some [] then
                (Inl (HTTPException 400 ''ValidationError'' (the errors)), st)
              else
                (let next_version = py_max (existing_versions st (tenant', env', ck, scope_type, scope_key)) 0 + 1;
                     doc = \<lparr>tenant = tenant', env = env', componentKey = component_key,
                            scopeType = scope_type, scopeKey = scope_key,
                            version = next_version, val = v, createdAt = now,
                            createdBy = body_get (body_updatedBy body) ''dev''\<rparr>
                 in (Inr next_version, st @ [doc]))))"

text \<open>A sequence of PUT requests, one after the other, each on the store the last one left.\<close>

record upsert_call =
  call_component_key :: string
  call_tenant_q :: "string option"
  call_env_q :: "string option"
  call_body :: upsert_body
  call_now :: real

fun upsert_sequence ::
  "registry \<Rightarrow> (json \<Rightarrow> json \<Rightarrow> ('p::linorder \<times> string) list) \<Rightarrow> ('p \<Rightarrow> string) \<Rightarrow>
   store \<Rightarrow> upsert_call list \<Rightarrow> (http_error + int) list \<times> store" where
  "upsert_sequence reg iter_errors path_repr st [] = ([], st)"
| "upsert_sequence reg iter_errors path_repr st (c # cs) =
     (case upsert_component reg iter_errors path_repr st (call_now c) (call_component_key c)
             (call_tenant_q c) (call_env_q c) (call_body c) of
        (r, st') \<Rightarrow>
          (case upsert_sequence reg iter_errors path_repr st' cs of
             (rs, st'') \<Rightarrow> (r # rs, st'')))"

definition delete_all :: "store \<Rightarrow> store" where
  "delete_all st = []"

definition delete_component :: "store \<Rightarrow> string \<Rightarrow> string \<Rightarrow> string \<Rightarrow> store" where
  "delete_component st component_key tenant' env' =
     filter (\<lambda>d. \<not> (tenant d = tenant' \<and> env d = env' \<and> componentKey d = component_key)) st"

section \<open>Values that merge associatively\<close>

text \<open>
  \<open>merge_compatible a b c\<close>: at no position (the root, or a key path that leads through
  objects in all three values) is \<open>b\<close> an array or a scalar other than null while \<open>a\<close>
  and \<open>c\<close> are both objects.
\<close>

fun merge_compatible :: "json \<Rightarrow> json \<Rightarrow> json \<Rightarrow> bool" where
  "merge_compatible (JObj a) (JObj b) (JObj c) =
     list_all (\<lambda>(k, bv). case map_of a k of
                           None \<Rightarrow> True
                         | Some av \<Rightarrow> (case map_of c k of
                                        None \<Rightarrow> True
                                      | Some cv \<Rightarrow> merge_compatible av bv cv)) b"
| "merge_compatible (JObj a) JNull (JObj c) = True"
| "merge_compatible (JObj a) b (JObj c) = False"
| "merge_compatible a b c = True"

section \<open>The latest document of a scope\<close>

text \<open>
  \<open>first_latest c d\<close>: the document \<open>d\<close> occurs in the scan \<open>c\<close>, every earlier document
  of its scope has a smaller version, and no later one has a greater version; that is,
  \<open>d\<close> is the first document of its scope with the greatest version.
\<close>

definition first_latest :: "ConfigDoc list \<Rightarrow> ConfigDoc \<Rightarrow> bool" where
  "first_latest c d =
     (\<exists>ys zs. c = ys @ d # zs \<and>
        (\<forall>x \<in> set ys. doc_scope x = doc_scope d \<longrightarrow> version x < version d) \<and>
        (\<forall>x \<in> set zs. doc_scope x = doc_scope d \<longrightarrow> version x \<le> version d))"

text \<open>The loop invariant of \<^verbatim>\<open>latest_versions_for\<close>: the dict \<open>L\<close> after the scan of \<open>p\<close>.\<close>

definition latest_inv :: "((string \<times> string) \<times> ConfigDoc) list \<Rightarrow> ConfigDoc list \<Rightarrow> bool" where
  "latest_inv L p = (distinct (map fst L) \<and> fst ` set L = doc_scope ` set p \<and>
      (\<forall>(k, d) \<in> set L. k = doc_scope d \<and> first_latest p d))"

section \<open>Dictionaries\<close>

lemma dict_set_keys:
  "map fst (dict_set k v xs) = (if k \<in> set (map fst xs) then map fst xs else map fst xs @ [k])"
  by (induction xs) auto

lemma map_of_dict_set: "map_of (dict_set k v xs) = (map_of xs)(k \<mapsto> v)"
  by (induction xs) (auto simp: fun_eq_iff)

lemma fold_set_keys:
  "distinct (map fst ov) \<Longrightarrow>
   map fst (fold (\<lambda>(k, v) out. dict_set k (f k v) out) ov out) =
   map fst out @ filter (\<lambda>k. k \<notin> set (map fst out)) (map fst ov)"
proof (induction ov arbitrary: out)
  case Nil
  then show ?case by simp
next
  case (Cons p ov)
  obtain k v where p: "p = (k, v)" by (cases p)
  from Cons.prems p have knot: "k \<notin> set (map fst ov)" and d: "distinct (map fst ov)" by auto
  have ih: "map fst (fold (\<lambda>(k, v) out. dict_set k (f k v) out) ov (dict_set k (f k v) out)) =
     map fst (dict_set k (f k v) out) @
     filter (\<lambda>x. x \<notin> set (map fst (dict_set k (f k v) out))) (map fst ov)"
    using Cons.IH [OF d] .
  show ?case
  proof (cases "k \<in> set (map fst out)")
    case True
    then show ?thesis using ih p by (simp add: dict_set_keys)
  next
    case False
    have "filter (\<lambda>x. x \<noteq> k \<and> x \<notin> fst ` set out) (map fst ov) =
          filter (\<lambda>x. x \<notin> fst ` set out) (map fst ov)"
      using knot by (intro filter_cong) auto
    then show ?thesis using ih p False by (simp add: dict_set_keys)
  qed
qed

lemma fold_set_map_of:
  "distinct (map fst ov) \<Longrightarrow>
   map_of (fold (\<lambda>(k, v) out. dict_set k (f k v) out) ov out) k' =
   (case map_of ov k' of None \<Rightarrow> map_of out k' | Some v \<Rightarrow> Some (f k' v))"
proof (induction ov arbitrary: out)
  case Nil
  then show ?case by simp
next
  case (Cons p ov)
  obtain k v where p: "p = (k, v)" by (cases p)
  from Cons.prems p have knot: "map_of ov k = None" and d: "distinct (map fst ov)"
    by (auto simp: map_of_eq_None_iff)
  show ?case using Cons.IH [OF d, of "dict_set k (f k v) out"] p knot
    by (auto simp: map_of_dict_set split: option.splits)
qed

lemma deep_merge_null_left: "deep_merge JNull v = v"
  by (cases v) simp_all

lemma deep_merge_keys:
  "distinct (map fst ov) \<Longrightarrow> deep_merge (JObj b) (JObj ov) = JObj r \<Longrightarrow>
   map fst r = map fst b @ filter (\<lambda>k. k \<notin> set (map fst b)) (map fst ov)"
  by (auto simp: fold_set_keys)

lemma deep_merge_lookup:
  "distinct (map fst ov) \<Longrightarrow> deep_merge (JObj b) (JObj ov) = JObj r \<Longrightarrow>
   map_of r k = (case map_of ov k of None \<Rightarrow> map_of b k
                 | Some v \<Rightarrow> Some (deep_merge (dict_get b k) v))"
  by (auto simp: fold_set_map_of)

section \<open>Deep merge\<close>

text \<open>
  Claim C2. For values whose objects have distinct keys: merging null into \<open>base\<close> gives
  \<open>base\<close>; merging an object into an object gives an object whose keys are the keys of
  both, where a key of both is bound to the merge of the two values, a key of the base
  only keeps the base's value and a key of the override only gets the override's value;
  in every other pairing the result is the override.
\<close>

theorem deep_merge_spec:
  assumes "wf_json base" and "wf_json override"
  shows "(override = JNull \<longrightarrow> deep_merge base override = base) \<and>
         (\<forall>bm om. base = JObj bm \<and> override = JObj om \<longrightarrow>
            (\<exists>rm. deep_merge base override = JObj rm \<and>
                  distinct (map fst rm) \<and>
                  set (map fst rm) = set (map fst bm) \<union> set (map fst om) \<and>
                  (\<forall>k. map_of rm k =
                     (case (map_of bm k, map_of om k) of
                        (Some x, Some y) \<Rightarrow> Some (deep_merge x y)
                      | (Some x, None) \<Rightarrow> Some x
                      | (None, Some y) \<Rightarrow> Some y
                      | (None, None) \<Rightarrow> None)))) \<and>
         (override \<noteq> JNull \<and> \<not> (is_obj base \<and> is_obj override) \<longrightarrow>
            deep_merge base override = override)"
proof (intro conjI allI impI)
  show "deep_merge base override = base" if "override = JNull"
    using that by simp
next
  fix bm om
  assume bo: "base = JObj bm \<and> override = JObj om"
  with assms have db: "distinct (map fst bm)" and dov: "distinct (map fst om)" by auto
  obtain rm where rm: "deep_merge (JObj bm) (JObj om) = JObj rm" by simp
  have keys: "map fst rm = map fst bm @ filter (\<lambda>k. k \<notin> set (map fst bm)) (map fst om)"
    using deep_merge_keys [OF dov rm] .
  have look: "map_of rm k = (case map_of om k of None \<Rightarrow> map_of bm k
                 | Some v \<Rightarrow> Some (deep_merge (dict_get bm k) v))" for k
    using deep_merge_lookup [OF dov rm] .
  have d: "distinct (map fst rm)" using keys db dov by (auto simp: distinct_map_filter)
  have s: "set (map fst rm) = set (map fst bm) \<union> set (map fst om)" using keys by auto
  have l: "map_of rm k =
                     (case (map_of bm k, map_of om k) of
                        (Some x, Some y) \<Rightarrow> Some (deep_merge x y)
                      | (Some x, None) \<Rightarrow> Some x
                      | (None, Some y) \<Rightarrow> Some y
                      | (None, None) \<Rightarrow> None)" for k
    by (simp add: look dict_get_def deep_merge_null_left split: option.splits)
  show "\<exists>rm. deep_merge base override = JObj rm \<and>
                  distinct (map fst rm) \<and>
                  set (map fst rm) = set (map fst bm) \<union> set (map fst om) \<and>
                  (\<forall>k. map_of rm k =
                     (case (map_of bm k, map_of om k) of
                        (Some x, Some y) \<Rightarrow> Some (deep_merge x y)
                      | (Some x, None) \<Rightarrow> Some x
                      | (None, Some y) \<Rightarrow> Some y
                      | (None, None) \<Rightarrow> None))"
    using bo rm d s l by blast
next
  assume "override \<noteq> JNull \<and> \<not> (is_obj base \<and> is_obj override)"
  then show "deep_merge base override = override"
    by (cases base; cases override) simp_all
qed

theorem deep_merge_spec_witness:
  "wf_json (JObj [(''a'', JNum 1), (''n'', JObj [(''x'', JNum 1)])]) \<and>
   wf_json (JObj [(''n'', JObj [(''y'', JNum 2)]), (''c'', JArr [])]) \<and>
   (\<exists>rm. deep_merge (JObj [(''a'', JNum 1), (''n'', JObj [(''x'', JNum 1)])])
                     (JObj [(''n'', JObj [(''y'', JNum 2)]), (''c'', JArr [])]) = JObj rm \<and>
         distinct (map fst rm) \<and>
         set (map fst rm) =
           set (map fst [(''a'', JNum 1), (''n'', JObj [(''x'', JNum 1)])]) \<union>
           set (map fst [(''n'', JObj [(''y'', JNum 2)]), (''c'', JArr [])]) \<and>
         (\<forall>k. map_of rm k =
            (case (map_of [(''a'', JNum 1), (''n'', JObj [(''x'', JNum 1)])] k,
                   map_of [(''n'', JObj [(''y'', JNum 2)]), (''c'', JArr [])] k) of
               (Some x, Some y) \<Rightarrow> Some (deep_merge x y)
             | (Some x, None) \<Rightarrow> Some x
             | (None, Some y) \<Rightarrow> Some y
             | (None, None) \<Rightarrow> None)))"
proof -
  have h1: "wf_json (JObj [(''a'', JNum 1), (''n'', JObj [(''x'', JNum 1)])])" by simp
  have h2: "wf_json (JObj [(''n'', JObj [(''y'', JNum 2)]), (''c'', JArr [])])" by simp
  have e: "JObj [(''a'', JNum 1), (''n'', JObj [(''x'', JNum 1)])] =
             JObj [(''a'', JNum 1), (''n'', JObj [(''x'', JNum 1)])] \<and>
           JObj [(''n'', JObj [(''y'', JNum 2)]), (''c'', JArr [])] =
             JObj [(''n'', JObj [(''y'', JNum 2)]), (''c'', JArr [])]" by simp
  note t = deep_merge_spec [OF h1 h2, THEN conjunct2, THEN conjunct1, rule_format, OF e]
  show ?thesis
    by (rule conjI [OF h1 conjI [OF h2 t]])
qed

lemma obj_eqI:
  "map fst xs = map fst ys \<Longrightarrow> distinct (map fst xs) \<Longrightarrow>
   (\<And>k. k \<in> set (map fst xs) \<Longrightarrow> map_of xs k = map_of ys k) \<Longrightarrow> xs = ys"
proof (induction xs arbitrary: ys)
  case Nil
  then show ?case by simp
next
  case (Cons p xs)
  obtain k v where p: "p = (k, v)" by (cases p)
  from Cons.prems(1) p obtain v' ys' where ys: "ys = (k, v') # ys'" and keys: "map fst xs = map fst ys'"
    by (cases ys) auto
  from Cons.prems(3) [of k] p ys have vv: "v = v'" by simp
  from Cons.prems(2) p have kx: "k \<notin> set (map fst xs)" and d: "distinct (map fst xs)" by auto
  have "map_of xs k' = map_of ys' k'" if "k' \<in> set (map fst xs)" for k'
  proof -
    from that kx have "k' \<noteq> k" by auto
    with Cons.prems(3) [of k'] that p ys show ?thesis by simp
  qed
  with Cons.IH [OF keys d] have "xs = ys'" by blast
  with p ys vv show ?case by simp
qed

lemma wf_json_lookup: "wf_json (JObj m) \<Longrightarrow> map_of m k = Some v \<Longrightarrow> wf_json v"
  by (auto simp: list_all_iff dest: map_of_SomeD)

lemma deep_merge_obj_assoc:
  assumes da: "distinct (map fst am)" and db: "distinct (map fst bm)" and dc: "distinct (map fst cm)"
    and step: "\<And>k av bv cv. map_of am k = Some av \<Longrightarrow> map_of bm k = Some bv \<Longrightarrow>
                 map_of cm k = Some cv \<Longrightarrow>
                 deep_merge (deep_merge av bv) cv = deep_merge av (deep_merge bv cv)"
  shows "deep_merge (deep_merge (JObj am) (JObj bm)) (JObj cm) =
         deep_merge (JObj am) (deep_merge (JObj bm) (JObj cm))"
proof -
  obtain ab where ab: "deep_merge (JObj am) (JObj bm) = JObj ab" by simp
  obtain bc where bc: "deep_merge (JObj bm) (JObj cm) = JObj bc" by simp
  obtain l where l: "deep_merge (JObj ab) (JObj cm) = JObj l" by simp
  obtain r where r: "deep_merge (JObj am) (JObj bc) = JObj r" by simp
  note kab = deep_merge_keys [OF db ab] and kbc = deep_merge_keys [OF dc bc]
  have dbc: "distinct (map fst bc)" using kbc db dc by (auto simp: distinct_map_filter)
  note kl = deep_merge_keys [OF dc l] and kr = deep_merge_keys [OF dbc r]
  have keys: "map fst l = map fst r"
    unfolding kl kr kab kbc by (auto intro: filter_cong)
  have dl: "distinct (map fst l)"
    unfolding kl kab using da db dc by (auto simp: distinct_map_filter)
  have look: "map_of l k = map_of r k" for k
  proof -
    have 1: "map_of l k = (case map_of cm k of None \<Rightarrow> map_of ab k
                 | Some v \<Rightarrow> Some (deep_merge (dict_get ab k) v))"
      using deep_merge_lookup [OF dc l] .
    have 2: "map_of ab k = (case map_of bm k of None \<Rightarrow> map_of am k
                 | Some v \<Rightarrow> Some (deep_merge (dict_get am k) v))"
      using deep_merge_lookup [OF db ab] .
    have 3: "map_of r k = (case map_of bc k of None \<Rightarrow> map_of am k
                 | Some v \<Rightarrow> Some (deep_merge (dict_get am k) v))"
      using deep_merge_lookup [OF dbc r] .
    have 4: "map_of bc k = (case map_of cm k of None \<Rightarrow> map_of bm k
                 | Some v \<Rightarrow> Some (deep_merge (dict_get bm k) v))"
      using deep_merge_lookup [OF dc bc] .
    show ?thesis
      unfolding 1 3 dict_get_def 2 4
      by (auto simp: dict_get_def deep_merge_null_left step split: option.splits)
  qed
  have "l = r" using obj_eqI [OF keys dl] look by blast
  with ab bc l r show ?thesis by simp
qed

text \<open>
  Claim C3, as stated, fails: a scalar in the middle value cuts off what the first
  value holds under the same key. Merged left to right, the object under \<open>k\<close> of the
  first value is replaced by 5 and then by the third value's object; merged right to
  left, the first and the third object are merged.
\<close>

theorem deep_merge_assoc_counterexample:
  "deep_merge (deep_merge (JObj [(''k'', JObj [(''x'', JNum 1)])]) (JObj [(''k'', JNum 5)]))
              (JObj [(''k'', JObj [(''y'', JNum 2)])])
   \<noteq> deep_merge (JObj [(''k'', JObj [(''x'', JNum 1)])])
              (deep_merge (JObj [(''k'', JNum 5)]) (JObj [(''k'', JObj [(''y'', JNum 2)])]))"
  by (simp add: dict_get_def)

text \<open>
  Claim C3, amended. Deep merge is associative on values whose objects have distinct
  keys whenever the middle value is nowhere an array or a non-null scalar at a position
  where the first and the third value are both objects.
\<close>

theorem deep_merge_assoc:
  assumes "wf_json a" and "wf_json b" and "wf_json c" and "merge_compatible a b c"
  shows "deep_merge (deep_merge a b) c = deep_merge a (deep_merge b c)"
  using assms
proof (induction b arbitrary: a c)
  case JNull
  then show ?case by (simp add: deep_merge_null_left)
next
  case (JBool x)
  then show ?case by (cases c; cases a) simp_all
next
  case (JNum x)
  then show ?case by (cases c; cases a) simp_all
next
  case (JStr x)
  then show ?case by (cases c; cases a) simp_all
next
  case (JArr x)
  then show ?case by (cases c; cases a) simp_all
next
  case (JObj bm)
  show ?case
  proof (cases c)
    case (JObj cm)
    note c = this
    show ?thesis
    proof (cases a)
      case (JObj am)
      have da: "distinct (map fst am)" and db: "distinct (map fst bm)" and dc: "distinct (map fst cm)"
        using JObj.prems c JObj by auto
      have step: "deep_merge (deep_merge av bv) cv = deep_merge av (deep_merge bv cv)"
        if "map_of am k = Some av" "map_of bm k = Some bv" "map_of cm k = Some cv" for k av bv cv
      proof -
        have mem: "(k, bv) \<in> set bm" using that(2) by (rule map_of_SomeD)
        have comp: "merge_compatible av bv cv"
          using JObj.prems(4) c JObj mem that by (auto simp: list_all_iff)
        have w: "wf_json av" "wf_json bv" "wf_json cv"
          using JObj.prems c JObj that by (auto intro: wf_json_lookup)
        show ?thesis using JObj.IH [OF mem _ w comp] by simp
      qed
      show ?thesis unfolding c JObj by (rule deep_merge_obj_assoc [OF da db dc step])
    qed (simp_all add: c deep_merge_null_left)
  qed (cases a; simp)+
qed

theorem deep_merge_assoc_witness:
  "wf_json (JObj [(''a'', JNum 1), (''n'', JObj [(''x'', JNum 1)])]) \<and>
   wf_json (JObj [(''n'', JObj [(''y'', JNum 2)])]) \<and>
   wf_json (JObj [(''n'', JObj [(''x'', JNum 3)]), (''c'', JNum 1)]) \<and>
   merge_compatible (JObj [(''a'', JNum 1), (''n'', JObj [(''x'', JNum 1)])])
     (JObj [(''n'', JObj [(''y'', JNum 2)])])
     (JObj [(''n'', JObj [(''x'', JNum 3)]), (''c'', JNum 1)]) \<and>
   deep_merge (deep_merge (JObj [(''a'', JNum 1), (''n'', JObj [(''x'', JNum 1)])])
                          (JObj [(''n'', JObj [(''y'', JNum 2)])]))
              (JObj [(''n'', JObj [(''x'', JNum 3)]), (''c'', JNum 1)]) =
   deep_merge (JObj [(''a'', JNum 1), (''n'', JObj [(''x'', JNum 1)])])
              (deep_merge (JObj [(''n'', JObj [(''y'', JNum 2)])])
                          (JObj [(''n'', JObj [(''x'', JNum 3)]), (''c'', JNum 1)]))"
proof -
  have h1: "wf_json (JObj [(''a'', JNum 1), (''n'', JObj [(''x'', JNum 1)])])" by simp
  have h2: "wf_json (JObj [(''n'', JObj [(''y'', JNum 2)])])" by simp
  have h3: "wf_json (JObj [(''n'', JObj [(''x'', JNum 3)]), (''c'', JNum 1)])" by simp
  have h4: "merge_compatible (JObj [(''a'', JNum 1), (''n'', JObj [(''x'', JNum 1)])])
     (JObj [(''n'', JObj [(''y'', JNum 2)])])
     (JObj [(''n'', JObj [(''x'', JNum 3)]), (''c'', JNum 1)])" by simp
  show ?thesis
    by (rule conjI [OF h1 conjI [OF h2 conjI [OF h3 conjI [OF h4 deep_merge_assoc [OF h1 h2 h3 h4]]]]])
qed

section \<open>Route patterns\<close>

text \<open>
  Bracket expressions: an empty range is dropped before a leading \<^verbatim>\<open>!\<close> is read as
  negation, the hyphen after a range stands for itself, and a bracket that is never
  closed is an ordinary character.
\<close>

lemma fnmatch_bracket_examples:
  "fnmatch ''/vx'' ''/v[b-a!]''"
  "fnmatch ''/vb'' ''/v[a-c-e]'' \<and> fnmatch ''/v-'' ''/v[a-c-e]'' \<and> \<not> fnmatch ''/vd'' ''/v[a-c-e]''"
  "\<not> fnmatch ''/vx'' ''/v[b-a]'' \<and> fnmatch ''/vx'' ''/v[!b-a]''"
  "fnmatch ''/v[a'' ''/v[a'' \<and> fnmatch ''/v]'' ''/v[]x]'' \<and> \<not> fnmatch ''/v]'' ''/v[!]x]''"
  by (simp_all add: fnmatch_def split_class_def class_of_def)

lemma glob_match_star: "glob_match [Star] s"
  by (induction s) simp_all

lemma glob_match_lits:
  "glob_match (map Lit p @ ts) s = (\<exists>s'. s = p @ s' \<and> glob_match ts s')"
proof (induction p arbitrary: s)
  case Nil
  then show ?case by simp
next
  case (Cons c p)
  then show ?case by (cases s) auto
qed

lemma translate_plain:
  "list_all (\<lambda>c. c \<notin> set ''*?['') p \<Longrightarrow> translate (p @ q) = map Lit p @ translate q"
  by (induction p) simp_all

lemma match_route_prefix_star:
  assumes "list_all (\<lambda>c. c \<notin> set ''*?['') p"
  shows "match_route (p @ ''*'') r = (\<exists>s. r = p @ s)"
proof -
  have "translate (p @ ''*'') = map Lit p @ [Star]"
    using translate_plain [OF assms, of "''*''"] by simp
  then show ?thesis
    by (simp add: match_route_def fnmatch_def glob_match_lits glob_match_star del: glob_match.simps)
qed

text \<open>
  Claim C8. A route pattern that ends in \<^verbatim>\<open>*\<close> after a prefix without wildcard
  characters matches exactly the routes that start with the prefix, whatever follows,
  \<^verbatim>\<open>/\<close> included: \<^verbatim>\<open>/products/*\<close> matches \<^verbatim>\<open>/products/shoes\<close> and
  \<^verbatim>\<open>/products/shoes/42\<close> and does not match \<^verbatim>\<open>/product/shoes\<close>.
\<close>

theorem match_route_star_crosses_segments:
  "(\<forall>p r. list_all (\<lambda>c. c \<notin> set ''*?['') p \<longrightarrow> match_route (p @ ''*'') r = (\<exists>s. r = p @ s)) \<and>
   match_route ''/products/*'' ''/products/shoes'' \<and>
   match_route ''/products/*'' ''/products/shoes/42'' \<and>
   \<not> match_route ''/products/*'' ''/product/shoes''"
proof -
  have plain: "list_all (\<lambda>c. c \<notin> set ''*?['') ''/products/''" by simp
  have m: "match_route ''/products/*'' r = (\<exists>s. r = ''/products/'' @ s)" for r
    using match_route_prefix_star [OF plain, of r] by simp
  have 1: "match_route ''/products/*'' ''/products/shoes''" unfolding m by simp
  have 2: "match_route ''/products/*'' ''/products/shoes/42''" unfolding m by simp
  have 3: "\<not> match_route ''/products/*'' ''/product/shoes''" unfolding m by simp
  show ?thesis using match_route_prefix_star 1 2 3 by blast
qed

theorem match_route_star_crosses_segments_witness:
  "list_all (\<lambda>c. c \<notin> set ''*?['') ''/shop/'' \<and>
   match_route (''/shop/'' @ ''*'') ''/shop/a/b'' = (\<exists>s. ''/shop/a/b'' = ''/shop/'' @ s)"
proof -
  have h: "list_all (\<lambda>c. c \<notin> set ''*?['') ''/shop/''" by simp
  note t = match_route_star_crosses_segments [THEN conjunct1, rule_format, OF h, of "''/shop/a/b''"]
  show ?thesis by (rule conjI [OF h t])
qed

section \<open>Deleting a component\<close>

text \<open>
  Claim C9. Deleting a component removes every document of the given tenant,
  environment and component key, and leaves the documents of every other tenant,
  environment or component key in the store, unchanged and in their order.
\<close>

theorem delete_component_isolation:
  "filter (\<lambda>d. tenant d = t \<and> env d = e \<and> componentKey d = ck) (delete_component st ck t e) = [] \<and>
   filter (\<lambda>d. \<not> (tenant d = t \<and> env d = e \<and> componentKey d = ck)) (delete_component st ck t e) =
   filter (\<lambda>d. \<not> (tenant d = t \<and> env d = e \<and> componentKey d = ck)) st \<and>
   set (delete_component st ck t e) =
     {d \<in> set st. (tenant d, env d, componentKey d) \<noteq> (t, e, ck)}"
  by (auto simp: delete_component_def filter_empty_conv)

theorem delete_component_isolation_witness:
  "filter (\<lambda>d. \<not> (tenant d = ''t1'' \<and> env d = ''dev'' \<and> componentKey d = ''c1''))
     (delete_component
       [\<lparr>tenant = ''t1'', env = ''dev'', componentKey = ''c1'',
          scopeType = ''global'', scopeKey = ''*'', version = 1,
          val = JObj [(''a'', JNum 1)], createdAt = 0, createdBy = ''dev''\<rparr>,
      \<lparr>tenant = ''t2'', env = ''dev'', componentKey = ''c1'',
         scopeType = ''global'', scopeKey = ''*'', version = 1,
         val = JObj [(''a'', JNum 2)], createdAt = 0, createdBy = ''dev''\<rparr>,
      \<lparr>tenant = ''t1'', env = ''dev'', componentKey = ''c2'',
         scopeType = ''page'', scopeKey = ''home'', version = 4,
         val = JObj [], createdAt = 0, createdBy = ''dev''\<rparr>]
       ''c1'' ''t1'' ''dev'') =
   filter (\<lambda>d. \<not> (tenant d = ''t1'' \<and> env d = ''dev'' \<and> componentKey d = ''c1''))
       [\<lparr>tenant = ''t1'', env = ''dev'', componentKey = ''c1'',
          scopeType = ''global'', scopeKey = ''*'', version = 1,
          val = JObj [(''a'', JNum 1)], createdAt = 0, createdBy = ''dev''\<rparr>,
      \<lparr>tenant = ''t2'', env = ''dev'', componentKey = ''c1'',
         scopeType = ''global'', scopeKey = ''*'', version = 1,
         val = JObj [(''a'', JNum 2)], createdAt = 0, createdBy = ''dev''\<rparr>,
      \<lparr>tenant = ''t1'', env = ''dev'', componentKey = ''c2'',
         scopeType = ''page'', scopeKey = ''home'', version = 4,
         val = JObj [], createdAt = 0, createdBy = ''dev''\<rparr>] \<and>
   delete_component
       [\<lparr>tenant = ''t1'', env = ''dev'', componentKey = ''c1'',
          scopeType = ''global'', scopeKey = ''*'', version = 1,
          val = JObj [(''a'', JNum 1)], createdAt = 0, createdBy = ''dev''\<rparr>,
      \<lparr>tenant = ''t2'', env = ''dev'', componentKey = ''c1'',
         scopeType = ''global'', scopeKey = ''*'', version = 1,
         val = JObj [(''a'', JNum 2)], createdAt = 0, createdBy = ''dev''\<rparr>,
      \<lparr>tenant = ''t1'', env = ''dev'', componentKey = ''c2'',
         scopeType = ''page'', scopeKey = ''home'', version = 4,
         val = JObj [], createdAt = 0, createdBy = ''dev''\<rparr>]
       ''c1'' ''t1'' ''dev'' =
     [\<lparr>tenant = ''t2'', env = ''dev'', componentKey = ''c1'',
        scopeType = ''global'', scopeKey = ''*'', version = 1,
        val = JObj [(''a'', JNum 2)], createdAt = 0, createdBy = ''dev''\<rparr>,
      \<lparr>tenant = ''t1'', env = ''dev'', componentKey = ''c2'',
         scopeType = ''page'', scopeKey = ''home'', version = 4,
         val = JObj [], createdAt = 0, createdBy = ''dev''\<rparr>]"
proof -
  have ev: "delete_component
       [\<lparr>tenant = ''t1'', env = ''dev'', componentKey = ''c1'',
          scopeType = ''global'', scopeKey = ''*'', version = 1,
          val = JObj [(''a'', JNum 1)], createdAt = 0, createdBy = ''dev''\<rparr>,
      \<lparr>tenant = ''t2'', env = ''dev'', componentKey = ''c1'',
         scopeType = ''global'', scopeKey = ''*'', version = 1,
         val = JObj [(''a'', JNum 2)], createdAt = 0, createdBy = ''dev''\<rparr>,
      \<lparr>tenant = ''t1'', env = ''dev'', componentKey = ''c2'',
         scopeType = ''page'', scopeKey = ''home'', version = 4,
         val = JObj [], createdAt = 0, createdBy = ''dev''\<rparr>]
       ''c1'' ''t1'' ''dev'' =
     [\<lparr>tenant = ''t2'', env = ''dev'', componentKey = ''c1'',
        scopeType = ''global'', scopeKey = ''*'', version = 1,
        val = JObj [(''a'', JNum 2)], createdAt = 0, createdBy = ''dev''\<rparr>,
      \<lparr>tenant = ''t1'', env = ''dev'', componentKey = ''c2'',
         scopeType = ''page'', scopeKey = ''home'', version = 4,
         val = JObj [], createdAt = 0, createdBy = ''dev''\<rparr>]"
    by (simp add: delete_component_def)
  show ?thesis
    by (rule conjI [OF delete_component_isolation [THEN conjunct2, THEN conjunct1] ev])
qed

section \<open>Effective value\<close>

lemma apply_docs_Nil: "apply_docs e [] = e"
  by (simp add: apply_docs_def)

lemma sort_scopes_Nil: "sort_scopes [] = []"
  by (simp add: sort_scopes_def)

lemma sort_scopes_single: "sort_scopes [d] = [d]"
  by (simp add: sort_scopes_def)

lemma given_empty: "given (Some []) q = False" "given None q = False"
  by (simp_all add: given_def)

text \<open>
  Claim C10. An empty page id or route is treated as an absent one: no page document
  applies when the page is the empty string, no route document applies when the route
  is the empty string, and with both empty only the registry default and the global
  documents contribute.
\<close>

theorem empty_context_is_absent:
  "effective_for_component reg st t e ck route (Some '''') =
     effective_for_component reg st t e ck route None \<and>
   effective_for_component reg st t e ck (Some '''') page =
     effective_for_component reg st t e ck None page \<and>
   effective_for_component reg st t e ck (Some '''') (Some '''') =
     apply_docs (default_for reg ck)
       (sort_scopes (filter (\<lambda>d. scopeType d = ''global'') (latest_versions_for st (t, e, ck))))"
  by (simp add: effective_for_component_def Let_def given_empty apply_docs_Nil sort_scopes_Nil)

theorem empty_context_is_absent_witness:
  "effective_for_component Map.empty
     [\<lparr>tenant = ''t'', env = ''e'', componentKey = ''c'',
        scopeType = ''global'', scopeKey = ''*'', version = 1,
        val = JObj [(''a'', JNum 1)], createdAt = 0, createdBy = ''dev''\<rparr>,
      \<lparr>tenant = ''t'', env = ''e'', componentKey = ''c'',
         scopeType = ''page'', scopeKey = '''', version = 1,
         val = JObj [(''a'', JNum 2)], createdAt = 0, createdBy = ''dev''\<rparr>,
      \<lparr>tenant = ''t'', env = ''e'', componentKey = ''c'',
         scopeType = ''route'', scopeKey = ''*'', version = 1,
         val = JObj [(''a'', JNum 3)], createdAt = 0, createdBy = ''dev''\<rparr>]
     ''t'' ''e'' ''c'' (Some []) (Some []) =
   apply_docs (default_for Map.empty ''c'')
     (sort_scopes (filter (\<lambda>d. scopeType d = ''global'') (latest_versions_for
     [\<lparr>tenant = ''t'', env = ''e'', componentKey = ''c'',
        scopeType = ''global'', scopeKey = ''*'', version = 1,
        val = JObj [(''a'', JNum 1)], createdAt = 0, createdBy = ''dev''\<rparr>,
      \<lparr>tenant = ''t'', env = ''e'', componentKey = ''c'',
         scopeType = ''page'', scopeKey = '''', version = 1,
         val = JObj [(''a'', JNum 2)], createdAt = 0, createdBy = ''dev''\<rparr>,
      \<lparr>tenant = ''t'', env = ''e'', componentKey = ''c'',
         scopeType = ''route'', scopeKey = ''*'', version = 1,
         val = JObj [(''a'', JNum 3)], createdAt = 0, createdBy = ''dev''\<rparr>]
     (''t'', ''e'', ''c'')))) \<and>
   apply_docs (default_for Map.empty ''c'')
     (sort_scopes (filter (\<lambda>d. scopeType d = ''global'') (latest_versions_for
     [\<lparr>tenant = ''t'', env = ''e'', componentKey = ''c'',
        scopeType = ''global'', scopeKey = ''*'', version = 1,
        val = JObj [(''a'', JNum 1)], createdAt = 0, createdBy = ''dev''\<rparr>,
      \<lparr>tenant = ''t'', env = ''e'', componentKey = ''c'',
         scopeType = ''page'', scopeKey = '''', version = 1,
         val = JObj [(''a'', JNum 2)], createdAt = 0, createdBy = ''dev''\<rparr>,
      \<lparr>tenant = ''t'', env = ''e'', componentKey = ''c'',
         scopeType = ''route'', scopeKey = ''*'', version = 1,
         val = JObj [(''a'', JNum 3)], createdAt = 0, createdBy = ''dev''\<rparr>]
     (''t'', ''e'', ''c'')))) = JObj [(''a'', JNum 1)]"
proof -
  have ev: "apply_docs (default_for Map.empty ''c'')
     (sort_scopes (filter (\<lambda>d. scopeType d = ''global'') (latest_versions_for
     [\<lparr>tenant = ''t'', env = ''e'', componentKey = ''c'',
        scopeType = ''global'', scopeKey = ''*'', version = 1,
        val = JObj [(''a'', JNum 1)], createdAt = 0, createdBy = ''dev''\<rparr>,
      \<lparr>tenant = ''t'', env = ''e'', componentKey = ''c'',
         scopeType = ''page'', scopeKey = '''', version = 1,
         val = JObj [(''a'', JNum 2)], createdAt = 0, createdBy = ''dev''\<rparr>,
      \<lparr>tenant = ''t'', env = ''e'', componentKey = ''c'',
         scopeType = ''route'', scopeKey = ''*'', version = 1,
         val = JObj [(''a'', JNum 3)], createdAt = 0, createdBy = ''dev''\<rparr>]
     (''t'', ''e'', ''c'')))) = JObj [(''a'', JNum 1)]"
    by (simp add: latest_versions_for_def candidates_def latest_step_def doc_scope_def
          sort_scopes_single apply_docs_def default_for_def dict_get_def)
  show ?thesis
    by (rule conjI [OF empty_context_is_absent [THEN conjunct2, THEN conjunct2] ev])
qed

lemma candidates_empty:
  "\<forall>d \<in> set st. \<not> (tenant d = t \<and> env d = e \<and> componentKey d = ck) \<Longrightarrow>
   candidates st (t, e, ck) = []"
  by (auto simp: candidates_def filter_empty_conv)

lemma effective_no_docs:
  "candidates st (t, e, ck) = [] \<Longrightarrow>
   effective_for_component reg st t e ck route page = default_for reg ck"
  by (simp add: effective_for_component_def Let_def latest_versions_for_def
        apply_docs_Nil sort_scopes_Nil)

text \<open>
  Claim C7. With no stored document for the tenant, environment and component key, the
  effective value is the registered default of the component, and the empty mapping
  when the registry has no entry for it.
\<close>

theorem default_baseline:
  assumes "\<forall>d \<in> set st. \<not> (tenant d = t \<and> env d = e \<and> componentKey d = ck)"
  shows "(\<forall>entry dflt. reg ck = Some entry \<and> entry_default entry = Some dflt \<longrightarrow>
            effective_for_component reg st t e ck route page = dflt) \<and>
         (reg ck = None \<longrightarrow> effective_for_component reg st t e ck route page = JObj [])"
  using effective_no_docs [OF candidates_empty [OF assms]]
  by (auto simp: default_for_def)

theorem default_baseline_witness:
  "effective_for_component
     [''c1'' \<mapsto> \<lparr>entry_default = Some (JObj [(''size'', JNum 3)]), entry_schema = None\<rparr>]
     [\<lparr>tenant = ''t2'', env = ''dev'', componentKey = ''c1'',
        scopeType = ''global'', scopeKey = ''*'', version = 1,
        val = JObj [(''a'', JNum 2)], createdAt = 0, createdBy = ''dev''\<rparr>]
     ''t1'' ''dev'' ''c1'' (Some ''/shop/42'') (Some ''home'') = JObj [(''size'', JNum 3)] \<and>
   effective_for_component Map.empty
     [\<lparr>tenant = ''t2'', env = ''dev'', componentKey = ''c1'',
        scopeType = ''global'', scopeKey = ''*'', version = 1,
        val = JObj [(''a'', JNum 2)], createdAt = 0, createdBy = ''dev''\<rparr>]
     ''t1'' ''dev'' ''c1'' (Some ''/shop/42'') (Some ''home'') = JObj []"
proof -
  have h: "\<forall>d \<in> set [\<lparr>tenant = ''t2'', env = ''dev'', componentKey = ''c1'',
     scopeType = ''global'', scopeKey = ''*'', version = 1,
     val = JObj [(''a'', JNum 2)], createdAt = 0, createdBy = ''dev''\<rparr>].
             \<not> (tenant d = ''t1'' \<and> env d = ''dev'' \<and> componentKey d = ''c1'')"
    by simp
  have r: "[''c1'' \<mapsto> \<lparr>entry_default = Some (JObj [(''size'', JNum 3)]), entry_schema = None\<rparr>] ''c1'' =
             Some \<lparr>entry_default = Some (JObj [(''size'', JNum 3)]), entry_schema = None\<rparr> \<and>
           entry_default \<lparr>entry_default = Some (JObj [(''size'', JNum 3)]), entry_schema = None\<rparr> =
             Some (JObj [(''size'', JNum 3)])"
    by simp
  have e: "(Map.empty :: registry) ''c1'' = None" by simp
  note t1 = default_baseline [where reg = "[''c1'' \<mapsto> \<lparr>entry_default = Some (JObj [(''size'', JNum 3)]), entry_schema = None\<rparr>]"
      and route = "Some ''/shop/42''" and page = "Some ''home''", OF h, THEN conjunct1]
  note t2 = default_baseline [where reg = Map.empty
      and route = "Some ''/shop/42''" and page = "Some ''home''", OF h, THEN conjunct2]
  from t1 r have c1: "effective_for_component
     [''c1'' \<mapsto> \<lparr>entry_default = Some (JObj [(''size'', JNum 3)]), entry_schema = None\<rparr>]
     [\<lparr>tenant = ''t2'', env = ''dev'', componentKey = ''c1'',
        scopeType = ''global'', scopeKey = ''*'', version = 1,
        val = JObj [(''a'', JNum 2)], createdAt = 0, createdBy = ''dev''\<rparr>]
     ''t1'' ''dev'' ''c1'' (Some ''/shop/42'') (Some ''home'') = JObj [(''size'', JNum 3)]"
    by blast
  from t2 e have c2: "effective_for_component Map.empty
     [\<lparr>tenant = ''t2'', env = ''dev'', componentKey = ''c1'',
        scopeType = ''global'', scopeKey = ''*'', version = 1,
        val = JObj [(''a'', JNum 2)], createdAt = 0, createdBy = ''dev''\<rparr>]
     ''t1'' ''dev'' ''c1'' (Some ''/shop/42'') (Some ''home'') = JObj []"
    by blast
  show ?thesis by (rule conjI [OF c1 c2])
qed

section \<open>Latest version per scope\<close>

lemma dict_set_new: "k \<notin> fst ` set L \<Longrightarrow> dict_set k v L = L @ [(k, v)]"
  by (induction L) auto

lemma set_dict_set:
  "distinct (map fst L) \<Longrightarrow> set (dict_set k v L) = {p \<in> set L. fst p \<noteq> k} \<union> {(k, v)}"
  by (induction L) (auto simp: rev_image_eqI)

lemma first_latest_snoc:
  "first_latest p d \<Longrightarrow> (doc_scope x = doc_scope d \<longrightarrow> version x \<le> version d) \<Longrightarrow>
   first_latest (p @ [x]) d"
proof -
  assume a: "first_latest p d" and b: "doc_scope x = doc_scope d \<longrightarrow> version x \<le> version d"
  from a obtain ys zs where p: "p = ys @ d # zs"
    and lt: "\<forall>x \<in> set ys. doc_scope x = doc_scope d \<longrightarrow> version x < version d"
    and le: "\<forall>x \<in> set zs. doc_scope x = doc_scope d \<longrightarrow> version x \<le> version d"
    unfolding first_latest_def by blast
  have "p @ [x] = ys @ d # (zs @ [x])" using p by simp
  moreover have "\<forall>y \<in> set (zs @ [x]). doc_scope y = doc_scope d \<longrightarrow> version y \<le> version d"
    using le b by auto
  ultimately show ?thesis unfolding first_latest_def using lt by blast
qed

lemma first_latest_new:
  "\<forall>y \<in> set p. doc_scope y = doc_scope x \<longrightarrow> version y < version x \<Longrightarrow>
   first_latest (p @ [x]) x"
  unfolding first_latest_def by (rule exI [of _ p], rule exI [of _ "[]"]) simp

lemma first_latest_max:
  "first_latest p d \<Longrightarrow> y \<in> set p \<Longrightarrow> doc_scope y = doc_scope d \<Longrightarrow> version y \<le> version d"
  unfolding first_latest_def by force

lemma latest_inv_step:
  assumes inv: "latest_inv L p"
  shows "latest_inv (latest_step x L) (p @ [x])"
proof -
  from inv have dist: "distinct (map fst L)" and keys: "fst ` set L = doc_scope ` set p"
    and each: "\<And>k d. (k, d) \<in> set L \<Longrightarrow> k = doc_scope d \<and> first_latest p d"
    unfolding latest_inv_def by auto
  show ?thesis
  proof (cases "map_of L (doc_scope x)")
    case None
    then have notin: "doc_scope x \<notin> fst ` set L" by (simp add: map_of_eq_None_iff)
    have step: "latest_step x L = L @ [(doc_scope x, x)]"
      using None notin by (simp add: latest_step_def dict_set_new)
    have np: "doc_scope y \<noteq> doc_scope x" if "y \<in> set p" for y
      using that notin keys by (metis imageI)
    have new: "first_latest (p @ [x]) x"
      using np by (intro first_latest_new) blast
    have old: "first_latest (p @ [x]) d" if "(k, d) \<in> set L" for k d
    proof -
      from each [OF that] have kd: "k = doc_scope d" and fl: "first_latest p d" by auto
      from that notin have "doc_scope x \<noteq> k" by force
      with kd fl show ?thesis by (intro first_latest_snoc) auto
    qed
    show ?thesis
      unfolding latest_inv_def step using dist notin keys new old each by auto
  next
    case (Some prev)
    then have mem: "(doc_scope x, prev) \<in> set L" by (rule map_of_SomeD)
    from each [OF mem] have flp: "first_latest p prev" and kp: "doc_scope x = doc_scope prev"
      by auto
    have uniq: "d = prev" if "(doc_scope x, d) \<in> set L" for d
      using that Some dist by (simp add: map_of_is_SomeI [OF dist that])
    show ?thesis
    proof (cases "version x > version prev")
      case True
      have step: "latest_step x L = dict_set (doc_scope x) x L"
        using Some True by (simp add: latest_step_def)
      have s: "set (latest_step x L) = {q \<in> set L. fst q \<noteq> doc_scope x} \<union> {(doc_scope x, x)}"
        unfolding step by (rule set_dict_set [OF dist])
      have k: "map fst (latest_step x L) = map fst L"
        unfolding step using mem by (auto simp: dict_set_keys rev_image_eqI)
      have new: "first_latest (p @ [x]) x"
      proof (intro first_latest_new ballI impI)
        fix y assume "y \<in> set p" "doc_scope y = doc_scope x"
        then have "version y \<le> version prev"
          using first_latest_max [OF flp] kp by simp
        with True show "version y < version x" by simp
      qed
      have old: "first_latest (p @ [x]) d" if "(k, d) \<in> set L" "k \<noteq> doc_scope x" for k d
        using each [OF that(1)] that(2) by (intro first_latest_snoc) auto
      have keys': "fst ` set L = doc_scope ` set (p @ [x])"
        using keys mem by (auto simp: rev_image_eqI)
      have i1: "distinct (map fst (latest_step x L))" using k dist by simp
      have "fst ` set (latest_step x L) = set (map fst (latest_step x L))" by simp
      also have "\<dots> = fst ` set L" unfolding k by simp
      finally have i2: "fst ` set (latest_step x L) = doc_scope ` set (p @ [x])"
        using keys' by simp
      have i3: "\<forall>(k, d) \<in> set (latest_step x L). k = doc_scope d \<and> first_latest (p @ [x]) d"
        unfolding s using new old each by auto
      show ?thesis
        unfolding latest_inv_def using i1 i2 i3 by blast
    next
      case False
      have step: "latest_step x L = L"
        using Some False by (simp add: latest_step_def)
      have old: "first_latest (p @ [x]) d" if "(k, d) \<in> set L" for k d
      proof (cases "k = doc_scope x")
        case True
        with that uniq have "d = prev" by simp
        with flp False show ?thesis by (intro first_latest_snoc) auto
      next
        case False
        with each [OF that] show ?thesis by (intro first_latest_snoc) auto
      qed
      have keys': "fst ` set L = doc_scope ` set (p @ [x])"
        using keys mem by (auto simp: rev_image_eqI)
      show ?thesis
        unfolding latest_inv_def step using dist keys' old each by auto
    qed
  qed
qed

lemma latest_inv_fold:
  "latest_inv L p \<Longrightarrow> latest_inv (fold latest_step xs L) (p @ xs)"
proof (induction xs arbitrary: L p)
  case Nil
  then show ?case by simp
next
  case (Cons x xs)
  from Cons.IH [OF latest_inv_step [OF Cons.prems, of x]] show ?case by simp
qed

lemma latest_inv_candidates:
  "latest_inv (fold latest_step c []) c"
  using latest_inv_fold [of "[]" "[]" c] by (simp add: latest_inv_def)

text \<open>
  Claim C6, as stated, fails on a tie: the loop replaces the kept document only when
  the new version is greater, so of two documents of one scope with the same greatest
  version the first in the scan is kept, not the last.
\<close>

theorem latest_versions_for_tie_counterexample:
  "latest_versions_for
     [\<lparr>tenant = ''t'', env = ''e'', componentKey = ''c'',
        scopeType = ''page'', scopeKey = ''home'', version = 2,
        val = JObj [(''a'', JNum 0)], createdAt = 0, createdBy = ''dev''\<rparr>,
      \<lparr>tenant = ''t'', env = ''e'', componentKey = ''c'',
         scopeType = ''page'', scopeKey = ''home'', version = 3,
         val = JObj [(''a'', JNum 1)], createdAt = 0, createdBy = ''dev''\<rparr>,
      \<lparr>tenant = ''t'', env = ''e'', componentKey = ''c'',
         scopeType = ''page'', scopeKey = ''home'', version = 3,
         val = JObj [(''a'', JNum 2)], createdAt = 0, createdBy = ''dev''\<rparr>]
     (''t'', ''e'', ''c'') =
     [\<lparr>tenant = ''t'', env = ''e'', componentKey = ''c'',
        scopeType = ''page'', scopeKey = ''home'', version = 3,
        val = JObj [(''a'', JNum 1)], createdAt = 0, createdBy = ''dev''\<rparr>] \<and>
   version \<lparr>tenant = ''t'', env = ''e'', componentKey = ''c'',
      scopeType = ''page'', scopeKey = ''home'', version = 3,
      val = JObj [(''a'', JNum 2)], createdAt = 0, createdBy = ''dev''\<rparr> = version \<lparr>tenant = ''t'', env = ''e'', componentKey = ''c'',
      scopeType = ''page'', scopeKey = ''home'', version = 3,
      val = JObj [(''a'', JNum 1)], createdAt = 0, createdBy = ''dev''\<rparr> \<and>
   doc_scope \<lparr>tenant = ''t'', env = ''e'', componentKey = ''c'',
      scopeType = ''page'', scopeKey = ''home'', version = 3,
      val = JObj [(''a'', JNum 2)], createdAt = 0, createdBy = ''dev''\<rparr> = doc_scope \<lparr>tenant = ''t'', env = ''e'', componentKey = ''c'',
      scopeType = ''page'', scopeKey = ''home'', version = 3,
      val = JObj [(''a'', JNum 1)], createdAt = 0, createdBy = ''dev''\<rparr> \<and>
   \<lparr>tenant = ''t'', env = ''e'', componentKey = ''c'',
      scopeType = ''page'', scopeKey = ''home'', version = 3,
      val = JObj [(''a'', JNum 2)], createdAt = 0, createdBy = ''dev''\<rparr> \<noteq> \<lparr>tenant = ''t'', env = ''e'', componentKey = ''c'',
      scopeType = ''page'', scopeKey = ''home'', version = 3,
      val = JObj [(''a'', JNum 1)], createdAt = 0, createdBy = ''dev''\<rparr>"
  by (simp add: latest_versions_for_def candidates_def latest_step_def doc_scope_def)

text \<open>
  Claim C6, amended. The reduction keeps exactly one document for each scope (scope type
  and scope key) among the scanned documents of the identity; the kept document has the
  greatest version of its scope, and of several documents with that version it is the
  first in the scan order.
\<close>

theorem latest_versions_for_first_max:
  "distinct (map doc_scope (latest_versions_for st identity)) \<and>
   set (map doc_scope (latest_versions_for st identity)) =
     set (map doc_scope (candidates st identity)) \<and>
   (\<forall>d \<in> set (latest_versions_for st identity). first_latest (candidates st identity) d) \<and>
   (\<forall>d \<in> set (latest_versions_for st identity). \<forall>y \<in> set (candidates st identity).
      doc_scope y = doc_scope d \<longrightarrow> version y \<le> version d)"
proof -
  let ?c = "candidates st identity"
  let ?L = "fold latest_step ?c []"
  have inv: "latest_inv ?L ?c" by (rule latest_inv_candidates)
  then have key: "\<And>k d. (k, d) \<in> set ?L \<Longrightarrow> k = doc_scope d" and fl: "\<And>k d. (k, d) \<in> set ?L \<Longrightarrow> first_latest ?c d"
    and dist: "distinct (map fst ?L)" and keys: "fst ` set ?L = doc_scope ` set ?c"
    unfolding latest_inv_def by auto
  have m: "map doc_scope (map snd ?L) = map fst ?L"
    using key by (auto simp: map_eq_conv)
  have a: "distinct (map doc_scope (latest_versions_for st identity))"
    unfolding latest_versions_for_def m by (rule dist)
  have b: "set (map doc_scope (latest_versions_for st identity)) = set (map doc_scope ?c)"
    unfolding latest_versions_for_def m using keys by simp
  have c: "first_latest ?c d" if "d \<in> set (latest_versions_for st identity)" for d
    using that fl unfolding latest_versions_for_def by auto
  have d: "version y \<le> version d"
    if "d \<in> set (latest_versions_for st identity)" "y \<in> set ?c" "doc_scope y = doc_scope d" for d y
    using first_latest_max [OF c [OF that(1)] that(2) that(3)] .
  show ?thesis using a b c d by blast
qed

theorem latest_versions_for_first_max_witness:
  "latest_versions_for
     [\<lparr>tenant = ''t'', env = ''e'', componentKey = ''c'',
        scopeType = ''page'', scopeKey = ''home'', version = 2,
        val = JObj [(''a'', JNum 0)], createdAt = 0, createdBy = ''dev''\<rparr>,
      \<lparr>tenant = ''t'', env = ''e'', componentKey = ''c'',
         scopeType = ''page'', scopeKey = ''home'', version = 3,
         val = JObj [(''a'', JNum 1)], createdAt = 0, createdBy = ''dev''\<rparr>,
      \<lparr>tenant = ''t'', env = ''e'', componentKey = ''c'',
         scopeType = ''page'', scopeKey = ''home'', version = 3,
         val = JObj [(''a'', JNum 2)], createdAt = 0, createdBy = ''dev''\<rparr>]
     (''t'', ''e'', ''c'') =
     [\<lparr>tenant = ''t'', env = ''e'', componentKey = ''c'',
        scopeType = ''page'', scopeKey = ''home'', version = 3,
        val = JObj [(''a'', JNum 1)], createdAt = 0, createdBy = ''dev''\<rparr>] \<and>
   first_latest (candidates
     [\<lparr>tenant = ''t'', env = ''e'', componentKey = ''c'',
        scopeType = ''page'', scopeKey = ''home'', version = 2,
        val = JObj [(''a'', JNum 0)], createdAt = 0, createdBy = ''dev''\<rparr>,
      \<lparr>tenant = ''t'', env = ''e'', componentKey = ''c'',
         scopeType = ''page'', scopeKey = ''home'', version = 3,
         val = JObj [(''a'', JNum 1)], createdAt = 0, createdBy = ''dev''\<rparr>,
      \<lparr>tenant = ''t'', env = ''e'', componentKey = ''c'',
         scopeType = ''page'', scopeKey = ''home'', version = 3,
         val = JObj [(''a'', JNum 2)], createdAt = 0, createdBy = ''dev''\<rparr>]
     (''t'', ''e'', ''c''))
     \<lparr>tenant = ''t'', env = ''e'', componentKey = ''c'',
        scopeType = ''page'', scopeKey = ''home'', version = 3,
        val = JObj [(''a'', JNum 1)], createdAt = 0, createdBy = ''dev''\<rparr>"
proof -
  have ev: "latest_versions_for
     [\<lparr>tenant = ''t'', env = ''e'', componentKey = ''c'',
        scopeType = ''page'', scopeKey = ''home'', version = 2,
        val = JObj [(''a'', JNum 0)], createdAt = 0, createdBy = ''dev''\<rparr>,
      \<lparr>tenant = ''t'', env = ''e'', componentKey = ''c'',
         scopeType = ''page'', scopeKey = ''home'', version = 3,
         val = JObj [(''a'', JNum 1)], createdAt = 0, createdBy = ''dev''\<rparr>,
      \<lparr>tenant = ''t'', env = ''e'', componentKey = ''c'',
         scopeType = ''page'', scopeKey = ''home'', version = 3,
         val = JObj [(''a'', JNum 2)], createdAt = 0, createdBy = ''dev''\<rparr>]
     (''t'', ''e'', ''c'') =
     [\<lparr>tenant = ''t'', env = ''e'', componentKey = ''c'',
        scopeType = ''page'', scopeKey = ''home'', version = 3,
        val = JObj [(''a'', JNum 1)], createdAt = 0, createdBy = ''dev''\<rparr>]"
    by (simp add: latest_versions_for_def candidates_def latest_step_def doc_scope_def)
  have mem: "\<lparr>tenant = ''t'', env = ''e'', componentKey = ''c'',
     scopeType = ''page'', scopeKey = ''home'', version = 3,
     val = JObj [(''a'', JNum 1)], createdAt = 0, createdBy = ''dev''\<rparr> \<in> set (latest_versions_for
     [\<lparr>tenant = ''t'', env = ''e'', componentKey = ''c'',
        scopeType = ''page'', scopeKey = ''home'', version = 2,
        val = JObj [(''a'', JNum 0)], createdAt = 0, createdBy = ''dev''\<rparr>,
      \<lparr>tenant = ''t'', env = ''e'', componentKey = ''c'',
         scopeType = ''page'', scopeKey = ''home'', version = 3,
         val = JObj [(''a'', JNum 1)], createdAt = 0, createdBy = ''dev''\<rparr>,
      \<lparr>tenant = ''t'', env = ''e'', componentKey = ''c'',
         scopeType = ''page'', scopeKey = ''home'', version = 3,
         val = JObj [(''a'', JNum 2)], createdAt = 0, createdBy = ''dev''\<rparr>]
     (''t'', ''e'', ''c''))"
    unfolding ev by simp
  note t = latest_versions_for_first_max [THEN conjunct2, THEN conjunct2, THEN conjunct1, THEN bspec, OF mem]
  show ?thesis by (rule conjI [OF ev t])
qed

section \<open>Specificity precedence\<close>

lemma latest_versions_for_distinct: "distinct (latest_versions_for st identity)"
proof -
  let ?L = "fold latest_step (candidates st identity) []"
  have inv: "latest_inv ?L (candidates st identity)" by (rule latest_inv_candidates)
  then have key: "\<And>k d. (k, d) \<in> set ?L \<Longrightarrow> k = doc_scope d"
    and dist: "distinct (map fst ?L)"
    unfolding latest_inv_def by auto
  have eq: "map doc_scope (map snd ?L) = map fst ?L"
    using key by (auto simp: map_eq_conv)
  have dm: "distinct xs" if "distinct (map doc_scope xs)" for xs :: "ConfigDoc list"
    using that by (simp add: distinct_map)
  have "distinct (map doc_scope (map snd ?L))" unfolding eq by (rule dist)
  then have "distinct (map snd ?L)" by (rule dm)
  then show ?thesis unfolding latest_versions_for_def .
qed

lemma filter_single:
  "distinct xs \<Longrightarrow> x \<in> set xs \<Longrightarrow> (\<And>y. y \<in> set xs \<Longrightarrow> P y = (y = x)) \<Longrightarrow> filter P xs = [x]"
proof (induction xs)
  case Nil
  then show ?case by simp
next
  case (Cons a xs)
  show ?case
  proof (cases "a = x")
    case True
    with Cons.prems have "x \<notin> set xs" by simp
    with Cons.prems(3) have "filter P xs = []" by (auto simp: filter_empty_conv)
    with True Cons.prems(3) [of a] show ?thesis by simp
  next
    case False
    with Cons.prems have "x \<in> set xs" "distinct xs" by auto
    with Cons.IH Cons.prems(3) have "filter P xs = [x]" by simp
    with False Cons.prems(3) [of a] show ?thesis by simp
  qed
qed

lemma match_shop: "match_route ''/shop/*'' ''/shop/42''"
proof -
  have "list_all (\<lambda>c. c \<notin> set ''*?['') ''/shop/''" by simp
  from match_route_prefix_star [OF this, of "''/shop/42''"] show ?thesis by simp
qed

text \<open>
  Claim C1. Let the latest documents of a tenant, environment and component, one for
  each scope, be a global document with value {a: 1, b: 1}, a page document for "home"
  with value {b: 2} and a route document for "/shop/*" with value {b: 3, c: 1}, whatever
  older versions and other documents the store holds, and let the registry give the
  component no default. Then the effective value is {a: 1, b: 3, c: 1} for route
  "/shop/42" and page "home", {a: 1, b: 2} for page "home" alone, and {a: 1, b: 1}
  without route and page: global, then page, then route, the later merge winning.
\<close>

theorem specificity_precedence:
  assumes g: "g = \<lparr>tenant = t, env = e, componentKey = ck,
     scopeType = ''global'', scopeKey = gk, version = gv,
     val = JObj [(''a'', JNum 1), (''b'', JNum 1)], createdAt = gt, createdBy = gu\<rparr>"
    and p: "p = \<lparr>tenant = t, env = e, componentKey = ck,
       scopeType = ''page'', scopeKey = ''home'', version = pv,
       val = JObj [(''b'', JNum 2)], createdAt = pt, createdBy = pu\<rparr>"
    and r: "r = \<lparr>tenant = t, env = e, componentKey = ck,
       scopeType = ''route'', scopeKey = ''/shop/*'', version = rv,
       val = JObj [(''b'', JNum 3), (''c'', JNum 1)], createdAt = rt, createdBy = ru\<rparr>"
    and nodefault: "case reg ck of None \<Rightarrow> True | Some entry \<Rightarrow> entry_default entry = None"
    and docs: "set (latest_versions_for st (t, e, ck)) = {g, p, r}"
  shows "effective_for_component reg st t e ck (Some ''/shop/42'') (Some ''home'') =
           JObj [(''a'', JNum 1), (''b'', JNum 3), (''c'', JNum 1)] \<and>
         effective_for_component reg st t e ck None (Some ''home'') =
           JObj [(''a'', JNum 1), (''b'', JNum 2)] \<and>
         effective_for_component reg st t e ck None None =
           JObj [(''a'', JNum 1), (''b'', JNum 1)]"
proof -
  let ?l = "latest_versions_for st (t, e, ck)"
  have dist: "distinct ?l" by (rule latest_versions_for_distinct)
  have dflt: "default_for reg ck = JObj []"
    using nodefault by (simp add: default_for_def split: option.splits)
  have fg: "filter (\<lambda>d. scopeType d = ''global'') ?l = [g]"
    by (rule filter_single [OF dist]) (auto simp: docs g p r)
  have fp: "filter (\<lambda>d. scopeType d = ''page'' \<and> scopeKey d = ''home'') ?l = [p]"
    by (rule filter_single [OF dist]) (auto simp: docs g p r)
  have fr: "filter (\<lambda>d. scopeType d = ''route'' \<and> match_route (scopeKey d) ''/shop/42'') ?l = [r]"
    by (rule filter_single [OF dist]) (auto simp: docs g p r match_shop)
  have vals: "val g = JObj [(''a'', JNum 1), (''b'', JNum 1)]" "val p = JObj [(''b'', JNum 2)]"
    "val r = JObj [(''b'', JNum 3), (''c'', JNum 1)]"
    by (simp_all add: g p r)
  have 1: "effective_for_component reg st t e ck (Some ''/shop/42'') (Some ''home'') =
           JObj [(''a'', JNum 1), (''b'', JNum 3), (''c'', JNum 1)]"
    unfolding effective_for_component_def Let_def dflt
    by (simp add: given_def fg fp fr sort_scopes_single apply_docs_def vals dict_get_def)
  have 2: "effective_for_component reg st t e ck None (Some ''home'') =
           JObj [(''a'', JNum 1), (''b'', JNum 2)]"
    unfolding effective_for_component_def Let_def dflt
    by (simp add: given_def fg fp sort_scopes_single sort_scopes_Nil apply_docs_def vals dict_get_def)
  have 3: "effective_for_component reg st t e ck None None =
           JObj [(''a'', JNum 1), (''b'', JNum 1)]"
    unfolding effective_for_component_def Let_def dflt
    by (simp add: given_def fg sort_scopes_single sort_scopes_Nil apply_docs_def vals dict_get_def)
  show ?thesis using 1 2 3 by blast
qed

theorem specificity_precedence_witness:
  "effective_for_component Map.empty
     [\<lparr>tenant = ''acme'', env = ''dev'', componentKey = ''banner'',
        scopeType = ''route'', scopeKey = ''/shop/*'', version = 5,
        val = JObj [(''b'', JNum 3), (''c'', JNum 1)], createdAt = 12, createdBy = ''cy''\<rparr>,
      \<lparr>tenant = ''acme'', env = ''dev'', componentKey = ''banner'',
        scopeType = ''global'', scopeKey = ''*'', version = 1,
        val = JObj [(''a'', JNum 0), (''z'', JNum 9)], createdAt = 3, createdBy = ''ann''\<rparr>,
      \<lparr>tenant = ''other'', env = ''dev'', componentKey = ''banner'',
        scopeType = ''global'', scopeKey = ''*'', version = 1,
        val = JObj [(''a'', JNum 9)], createdAt = 13, createdBy = ''dee''\<rparr>,
      \<lparr>tenant = ''acme'', env = ''dev'', componentKey = ''banner'',
        scopeType = ''page'', scopeKey = ''home'', version = 1,
        val = JObj [(''b'', JNum 2)], createdAt = 11, createdBy = ''bob''\<rparr>,
      \<lparr>tenant = ''acme'', env = ''dev'', componentKey = ''banner'',
        scopeType = ''global'', scopeKey = ''*'', version = 2,
        val = JObj [(''a'', JNum 1), (''b'', JNum 1)], createdAt = 10, createdBy = ''ann''\<rparr>,
      \<lparr>tenant = ''acme'', env = ''dev'', componentKey = ''banner'',
        scopeType = ''route'', scopeKey = ''/shop/*'', version = 4,
        val = JObj [(''b'', JNum 7)], createdAt = 4, createdBy = ''cy''\<rparr>]
     ''acme'' ''dev'' ''banner'' (Some ''/shop/42'') (Some ''home'') =
     JObj [(''a'', JNum 1), (''b'', JNum 3), (''c'', JNum 1)] \<and>
   effective_for_component Map.empty
     [\<lparr>tenant = ''acme'', env = ''dev'', componentKey = ''banner'',
        scopeType = ''route'', scopeKey = ''/shop/*'', version = 5,
        val = JObj [(''b'', JNum 3), (''c'', JNum 1)], createdAt = 12, createdBy = ''cy''\<rparr>,
      \<lparr>tenant = ''acme'', env = ''dev'', componentKey = ''banner'',
        scopeType = ''global'', scopeKey = ''*'', version = 1,
        val = JObj [(''a'', JNum 0), (''z'', JNum 9)], createdAt = 3, createdBy = ''ann''\<rparr>,
      \<lparr>tenant = ''other'', env = ''dev'', componentKey = ''banner'',
        scopeType = ''global'', scopeKey = ''*'', version = 1,
        val = JObj [(''a'', JNum 9)], createdAt = 13, createdBy = ''dee''\<rparr>,
      \<lparr>tenant = ''acme'', env = ''dev'', componentKey = ''banner'',
        scopeType = ''page'', scopeKey = ''home'', version = 1,
        val = JObj [(''b'', JNum 2)], createdAt = 11, createdBy = ''bob''\<rparr>,
      \<lparr>tenant = ''acme'', env = ''dev'', componentKey = ''banner'',
        scopeType = ''global'', scopeKey = ''*'', version = 2,
        val = JObj [(''a'', JNum 1), (''b'', JNum 1)], createdAt = 10, createdBy = ''ann''\<rparr>,
      \<lparr>tenant = ''acme'', env = ''dev'', componentKey = ''banner'',
        scopeType = ''route'', scopeKey = ''/shop/*'', version = 4,
        val = JObj [(''b'', JNum 7)], createdAt = 4, createdBy = ''cy''\<rparr>]
     ''acme'' ''dev'' ''banner'' None (Some ''home'') =
     JObj [(''a'', JNum 1), (''b'', JNum 2)] \<and>
   effective_for_component Map.empty
     [\<lparr>tenant = ''acme'', env = ''dev'', componentKey = ''banner'',
        scopeType = ''route'', scopeKey = ''/shop/*'', version = 5,
        val = JObj [(''b'', JNum 3), (''c'', JNum 1)], createdAt = 12, createdBy = ''cy''\<rparr>,
      \<lparr>tenant = ''acme'', env = ''dev'', componentKey = ''banner'',
        scopeType = ''global'', scopeKey = ''*'', version = 1,
        val = JObj [(''a'', JNum 0), (''z'', JNum 9)], createdAt = 3, createdBy = ''ann''\<rparr>,
      \<lparr>tenant = ''other'', env = ''dev'', componentKey = ''banner'',
        scopeType = ''global'', scopeKey = ''*'', version = 1,
        val = JObj [(''a'', JNum 9)], createdAt = 13, createdBy = ''dee''\<rparr>,
      \<lparr>tenant = ''acme'', env = ''dev'', componentKey = ''banner'',
        scopeType = ''page'', scopeKey = ''home'', version = 1,
        val = JObj [(''b'', JNum 2)], createdAt = 11, createdBy = ''bob''\<rparr>,
      \<lparr>tenant = ''acme'', env = ''dev'', componentKey = ''banner'',
        scopeType = ''global'', scopeKey = ''*'', version = 2,
        val = JObj [(''a'', JNum 1), (''b'', JNum 1)], createdAt = 10, createdBy = ''ann''\<rparr>,
      \<lparr>tenant = ''acme'', env = ''dev'', componentKey = ''banner'',
        scopeType = ''route'', scopeKey = ''/shop/*'', version = 4,
        val = JObj [(''b'', JNum 7)], createdAt = 4, createdBy = ''cy''\<rparr>]
     ''acme'' ''dev'' ''banner'' None None =
     JObj [(''a'', JNum 1), (''b'', JNum 1)]"
proof -
  have h1: "case (Map.empty :: registry) ''banner'' of None \<Rightarrow> True
            | Some entry \<Rightarrow> entry_default entry = None"
    by simp
  have h2: "set (latest_versions_for
     [\<lparr>tenant = ''acme'', env = ''dev'', componentKey = ''banner'',
        scopeType = ''route'', scopeKey = ''/shop/*'', version = 5,
        val = JObj [(''b'', JNum 3), (''c'', JNum 1)], createdAt = 12, createdBy = ''cy''\<rparr>,
      \<lparr>tenant = ''acme'', env = ''dev'', componentKey = ''banner'',
        scopeType = ''global'', scopeKey = ''*'', version = 1,
        val = JObj [(''a'', JNum 0), (''z'', JNum 9)], createdAt = 3, createdBy = ''ann''\<rparr>,
      \<lparr>tenant = ''other'', env = ''dev'', componentKey = ''banner'',
        scopeType = ''global'', scopeKey = ''*'', version = 1,
        val = JObj [(''a'', JNum 9)], createdAt = 13, createdBy = ''dee''\<rparr>,
      \<lparr>tenant = ''acme'', env = ''dev'', componentKey = ''banner'',
        scopeType = ''page'', scopeKey = ''home'', version = 1,
        val = JObj [(''b'', JNum 2)], createdAt = 11, createdBy = ''bob''\<rparr>,
      \<lparr>tenant = ''acme'', env = ''dev'', componentKey = ''banner'',
        scopeType = ''global'', scopeKey = ''*'', version = 2,
        val = JObj [(''a'', JNum 1), (''b'', JNum 1)], createdAt = 10, createdBy = ''ann''\<rparr>,
      \<lparr>tenant = ''acme'', env = ''dev'', componentKey = ''banner'',
        scopeType = ''route'', scopeKey = ''/shop/*'', version = 4,
        val = JObj [(''b'', JNum 7)], createdAt = 4, createdBy = ''cy''\<rparr>]
     (''acme'', ''dev'', ''banner'')) =
     {\<lparr>tenant = ''acme'', env = ''dev'', componentKey = ''banner'',
        scopeType = ''global'', scopeKey = ''*'', version = 2,
        val = JObj [(''a'', JNum 1), (''b'', JNum 1)], createdAt = 10, createdBy = ''ann''\<rparr>,
      \<lparr>tenant = ''acme'', env = ''dev'', componentKey = ''banner'',
        scopeType = ''page'', scopeKey = ''home'', version = 1,
        val = JObj [(''b'', JNum 2)], createdAt = 11, createdBy = ''bob''\<rparr>,
      \<lparr>tenant = ''acme'', env = ''dev'', componentKey = ''banner'',
        scopeType = ''route'', scopeKey = ''/shop/*'', version = 5,
        val = JObj [(''b'', JNum 3), (''c'', JNum 1)], createdAt = 12, createdBy = ''cy''\<rparr>}"
    by (auto simp: latest_versions_for_def candidates_def latest_step_def doc_scope_def)
  show ?thesis
    by (rule specificity_precedence [OF refl refl refl h1 h2])
qed

section \<open>Upsert\<close>

lemma py_max_eq: "py_max xs dflt = (if xs = [] then dflt else Max (set xs))"
  by (cases xs) (simp_all add: py_max_def Max.set_eq_fold [symmetric])

lemma py_max_snoc: "py_max (xs @ [py_max xs 0 + 1]) 0 = py_max xs 0 + 1"
proof (cases "xs = []")
  case True
  then show ?thesis by (simp add: py_max_eq)
next
  case False
  then have "Max (insert (Max (set xs) + 1) (set xs)) = Max (set xs) + 1"
    by (simp add: max_def)
  with False show ?thesis by (simp add: py_max_eq)
qed

lemma validate_value_not_empty:
  "validate_value reg iter_errors path_repr ck v \<noteq> Some []"
  by (auto simp: validate_value_def Let_def split: option.splits)

lemma validate_value_no_schema:
  "(case reg ck of None \<Rightarrow> True | Some entry \<Rightarrow> entry_schema entry = None) \<Longrightarrow>
   validate_value reg iter_errors path_repr ck v = None"
  by (auto simp: validate_value_def split: option.splits)

lemma sort_key_Nil_iff: "sort_key f xs = [] \<longleftrightarrow> xs = []"
  by (metis length_sort length_0_conv)

lemma validate_value_Some:
  "validate_value reg iter_errors path_repr ck v = Some errs \<Longrightarrow>
   \<exists>entry schema. reg ck = Some entry \<and> entry_schema entry = Some schema \<and>
     errs = map (\<lambda>e. path_repr (fst e) @ '': '' @ snd e) (sort_key fst (iter_errors schema v)) \<and>
     length errs = length (iter_errors schema v) \<and> errs \<noteq> []"
  by (auto simp: validate_value_def Let_def sort_key_Nil_iff split: option.splits if_splits)

lemma upsert_component_rejected:
  "validate_value reg iter_errors path_repr ck (body_get (body_value body) (JObj [])) = Some errs \<Longrightarrow>
   upsert_component reg iter_errors path_repr st now ck tenant_q env_q body =
     (Inl (HTTPException 400 ''ValidationError'' errs), st)"
  using validate_value_not_empty [of reg iter_errors path_repr ck "body_get (body_value body) (JObj [])"]
  by (simp add: upsert_component_def upsert_target_def Let_def)

lemma upsert_component_accepted:
  "validate_value reg iter_errors path_repr ck (body_get (body_value body) (JObj [])) = None \<Longrightarrow>
   upsert_component reg iter_errors path_repr st now ck tenant_q env_q body =
     (Inr (py_max (existing_versions st (upsert_target ck tenant_q env_q body)) 0 + 1),
      st @ [\<lparr>tenant = fst (upsert_target ck tenant_q env_q body),
             env = fst (snd (upsert_target ck tenant_q env_q body)),
             componentKey = ck,
             scopeType = fst (snd (snd (snd (upsert_target ck tenant_q env_q body)))),
             scopeKey = snd (snd (snd (snd (upsert_target ck tenant_q env_q body)))),
             version = py_max (existing_versions st (upsert_target ck tenant_q env_q body)) 0 + 1,
             val = body_get (body_value body) (JObj []),
             createdAt = now,
             createdBy = body_get (body_updatedBy body) ''dev''\<rparr>])"
  by (simp add: upsert_component_def upsert_target_def Let_def)

text \<open>
  Claim C5. When validation reports violations, the request is answered with the
  ValidationError that carries the list of all violations of the registered schema,
  ordered by path, and the store is left as it was: no document is appended and no
  version is used up. When validation reports none, as it does whenever the component
  has no schema, exactly one document is appended, for the target of the request and
  with the submitted value.
\<close>

theorem upsert_rejection_atomic:
  "(\<forall>errs. validate_value reg iter_errors path_repr ck (body_get (body_value body) (JObj [])) = Some errs \<longrightarrow>
      upsert_component reg iter_errors path_repr st now ck tenant_q env_q body =
        (Inl (HTTPException 400 ''ValidationError'' errs), st) \<and>
      (\<exists>entry schema. reg ck = Some entry \<and> entry_schema entry = Some schema \<and>
         errs = map (\<lambda>e. path_repr (fst e) @ '': '' @ snd e)
                  (sort_key fst (iter_errors schema (body_get (body_value body) (JObj [])))) \<and>
         length errs = length (iter_errors schema (body_get (body_value body) (JObj []))) \<and>
         errs \<noteq> [])) \<and>
   (validate_value reg iter_errors path_repr ck (body_get (body_value body) (JObj [])) = None \<longrightarrow>
      (\<exists>doc. upsert_component reg iter_errors path_repr st now ck tenant_q env_q body =
               (Inr (version doc), st @ [doc]) \<and>
             doc_target doc = upsert_target ck tenant_q env_q body \<and>
             val doc = body_get (body_value body) (JObj []))) \<and>
   ((case reg ck of None \<Rightarrow> True | Some entry \<Rightarrow> entry_schema entry = None) \<longrightarrow>
      validate_value reg iter_errors path_repr ck (body_get (body_value body) (JObj [])) = None)"
proof (intro conjI allI impI)
  fix errs
  assume v: "validate_value reg iter_errors path_repr ck (body_get (body_value body) (JObj [])) = Some errs"
  show "upsert_component reg iter_errors path_repr st now ck tenant_q env_q body =
        (Inl (HTTPException 400 ''ValidationError'' errs), st)"
    using v by (rule upsert_component_rejected)
  from validate_value_Some [OF v]
  show "\<exists>entry schema. reg ck = Some entry \<and> entry_schema entry = Some schema \<and>
         errs = map (\<lambda>e. path_repr (fst e) @ '': '' @ snd e)
                  (sort_key fst (iter_errors schema (body_get (body_value body) (JObj [])))) \<and>
         length errs = length (iter_errors schema (body_get (body_value body) (JObj []))) \<and>
         errs \<noteq> []"
    by blast
next
  assume v: "validate_value reg iter_errors path_repr ck (body_get (body_value body) (JObj [])) = None"
  show "\<exists>doc. upsert_component reg iter_errors path_repr st now ck tenant_q env_q body =
               (Inr (version doc), st @ [doc]) \<and>
             doc_target doc = upsert_target ck tenant_q env_q body \<and>
             val doc = body_get (body_value body) (JObj [])"
    unfolding upsert_component_accepted [OF v]
    by (rule exI [of _ "\<lparr>tenant = fst (upsert_target ck tenant_q env_q body),
             env = fst (snd (upsert_target ck tenant_q env_q body)),
             componentKey = ck,
             scopeType = fst (snd (snd (snd (upsert_target ck tenant_q env_q body)))),
             scopeKey = snd (snd (snd (snd (upsert_target ck tenant_q env_q body)))),
             version = py_max (existing_versions st (upsert_target ck tenant_q env_q body)) 0 + 1,
             val = body_get (body_value body) (JObj []),
             createdAt = now,
             createdBy = body_get (body_updatedBy body) ''dev''\<rparr>"])
       (simp add: doc_target_def upsert_target_def)
next
  assume "case reg ck of None \<Rightarrow> True | Some entry \<Rightarrow> entry_schema entry = None"
  then show "validate_value reg iter_errors path_repr ck (body_get (body_value body) (JObj [])) = None"
    by (rule validate_value_no_schema)
qed

theorem upsert_rejection_atomic_witness:
  "upsert_component [''banner'' \<mapsto> \<lparr>entry_default = None, entry_schema = Some (JObj [(''required'', JArr [JStr ''size''])])\<rparr>]
     (\<lambda>schema v. if v = JObj [] then [(2 :: nat, ''b''), (1, ''a'')] else []) (\<lambda>p :: nat. ''p'')
     [\<lparr>tenant = ''default'', env = ''dev'', componentKey = ''banner'',
        scopeType = ''page'', scopeKey = ''home'', version = 7,
        val = JObj [], createdAt = 0, createdBy = ''dev''\<rparr>]
     5 ''banner'' None None
     \<lparr>body_tenant = None, body_env = None,
        body_scopeType = None, body_scopeKey = None,
        body_value = None, body_updatedBy = None\<rparr> =
     (Inl (HTTPException 400 ''ValidationError'' [''p: a'', ''p: b'']),
      [\<lparr>tenant = ''default'', env = ''dev'', componentKey = ''banner'',
         scopeType = ''page'', scopeKey = ''home'', version = 7,
         val = JObj [], createdAt = 0, createdBy = ''dev''\<rparr>]) \<and>
   (\<exists>doc. upsert_component [''banner'' \<mapsto> \<lparr>entry_default = None, entry_schema = Some (JObj [(''required'', JArr [JStr ''size''])])\<rparr>]
     (\<lambda>schema v. if v = JObj [] then [(2 :: nat, ''b''), (1, ''a'')] else []) (\<lambda>p :: nat. ''p'')
     [\<lparr>tenant = ''default'', env = ''dev'', componentKey = ''banner'',
        scopeType = ''page'', scopeKey = ''home'', version = 7,
        val = JObj [], createdAt = 0, createdBy = ''dev''\<rparr>]
     5 ''banner'' None None
     \<lparr>body_tenant = None, body_env = None,
        body_scopeType = None, body_scopeKey = None,
        body_value = Some (JObj [(''size'', JNum 1)]), body_updatedBy = None\<rparr> =
     (Inr (version doc),
      [\<lparr>tenant = ''default'', env = ''dev'', componentKey = ''banner'',
         scopeType = ''page'', scopeKey = ''home'', version = 7,
         val = JObj [], createdAt = 0, createdBy = ''dev''\<rparr>] @ [doc]) \<and>
     doc_target doc = upsert_target ''banner'' None None
       \<lparr>body_tenant = None, body_env = None,
          body_scopeType = None, body_scopeKey = None,
          body_value = Some (JObj [(''size'', JNum 1)]), body_updatedBy = None\<rparr> \<and>
     val doc = body_get (body_value \<lparr>body_tenant = None, body_env = None,
        body_scopeType = None, body_scopeKey = None,
        body_value = Some (JObj [(''size'', JNum 1)]), body_updatedBy = None\<rparr>) (JObj [])) \<and>
   validate_value Map.empty (\<lambda>schema v. if v = JObj [] then [(2 :: nat, ''b''), (1, ''a'')] else []) (\<lambda>p :: nat. ''p'') ''banner''
     (body_get (body_value \<lparr>body_tenant = None, body_env = None,
        body_scopeType = None, body_scopeKey = None,
        body_value = None, body_updatedBy = None\<rparr>) (JObj [])) = None"
proof -
  have bad: "validate_value [''banner'' \<mapsto> \<lparr>entry_default = None, entry_schema = Some (JObj [(''required'', JArr [JStr ''size''])])\<rparr>]
      (\<lambda>schema v. if v = JObj [] then [(2 :: nat, ''b''), (1, ''a'')] else []) (\<lambda>p :: nat. ''p'') ''banner''
      (body_get (body_value \<lparr>body_tenant = None, body_env = None,
         body_scopeType = None, body_scopeKey = None,
         body_value = None, body_updatedBy = None\<rparr>) (JObj [])) = Some [''p: a'', ''p: b'']"
    by (simp add: validate_value_def body_get_def)
  have ok: "validate_value [''banner'' \<mapsto> \<lparr>entry_default = None, entry_schema = Some (JObj [(''required'', JArr [JStr ''size''])])\<rparr>]
      (\<lambda>schema v. if v = JObj [] then [(2 :: nat, ''b''), (1, ''a'')] else []) (\<lambda>p :: nat. ''p'') ''banner''
      (body_get (body_value \<lparr>body_tenant = None, body_env = None,
         body_scopeType = None, body_scopeKey = None,
         body_value = Some (JObj [(''size'', JNum 1)]), body_updatedBy = None\<rparr>) (JObj [])) = None"
    by (simp add: validate_value_def body_get_def)
  have none: "case (Map.empty :: registry) ''banner'' of None \<Rightarrow> True
              | Some entry \<Rightarrow> entry_schema entry = None"
    by simp
  note a = upsert_rejection_atomic [THEN conjunct1, rule_format, OF bad, THEN conjunct1]
  note b = upsert_rejection_atomic [THEN conjunct2, THEN conjunct1, rule_format, OF ok]
  note c = upsert_rejection_atomic [where reg = Map.empty and ck = "''banner''",
      THEN conjunct2, THEN conjunct2, rule_format, OF none]
  show ?thesis by (rule conjI [OF a conjI [OF b c]])
qed

lemma existing_versions_append:
  "doc_target d = target \<Longrightarrow>
   existing_versions (st @ [d]) target = existing_versions st target @ [version d]"
  by (simp add: existing_versions_def)

lemma upsert_sequence_versions:
  assumes "\<forall>c \<in> set calls. upsert_target (call_component_key c) (call_tenant_q c) (call_env_q c)
             (call_body c) = target"
    and "\<forall>c \<in> set calls. validate_value reg iter_errors path_repr (call_component_key c)
             (body_get (body_value (call_body c)) (JObj [])) = None"
  shows "fst (upsert_sequence reg iter_errors path_repr st calls) =
         map (\<lambda>i. Inr (py_max (existing_versions st target) 0 + 1 + int i)) [0 ..< length calls]"
  using assms
proof (induction calls arbitrary: st)
  case Nil
  then show ?case by simp
next
  case (Cons c cs)
  let ?m = "py_max (existing_versions st target) 0"
  from Cons.prems have tgt: "upsert_target (call_component_key c) (call_tenant_q c) (call_env_q c)
             (call_body c) = target"
    and ok: "validate_value reg iter_errors path_repr (call_component_key c)
             (body_get (body_value (call_body c)) (JObj [])) = None"
    by auto
  obtain d where up: "upsert_component reg iter_errors path_repr st (call_now c) (call_component_key c)
             (call_tenant_q c) (call_env_q c) (call_body c) = (Inr (?m + 1), st @ [d])"
    and dt: "doc_target d = target" and dv: "version d = ?m + 1"
    using upsert_component_accepted [OF ok, of st "call_now c" "call_tenant_q c" "call_env_q c"] tgt
    by (auto simp: doc_target_def upsert_target_def)
  have m': "py_max (existing_versions (st @ [d]) target) 0 = ?m + 1"
    using existing_versions_append [OF dt, of st] dv py_max_snoc [of "existing_versions st target"]
    by simp
  from Cons.prems have rest: "\<forall>c \<in> set cs. upsert_target (call_component_key c) (call_tenant_q c)
        (call_env_q c) (call_body c) = target"
      "\<forall>c \<in> set cs. validate_value reg iter_errors path_repr (call_component_key c)
             (body_get (body_value (call_body c)) (JObj [])) = None"
    by auto
  have ih: "fst (upsert_sequence reg iter_errors path_repr (st @ [d]) cs) =
         map (\<lambda>i. Inr (?m + 1 + 1 + int i)) [0 ..< length cs]"
    using Cons.IH [OF rest, of "st @ [d]"] m' by simp
  have idx: "[0 ..< length (c # cs)] = 0 # map Suc [0 ..< length cs]"
    by (simp add: upt_conv_Cons map_Suc_upt del: upt_Suc)
  have "fst (upsert_sequence reg iter_errors path_repr st (c # cs)) =
        Inr (?m + 1) # fst (upsert_sequence reg iter_errors path_repr (st @ [d]) cs)"
    using up by (simp add: case_prod_beta)
  also have "\<dots> = map (\<lambda>i. Inr (?m + 1 + int i)) (0 # map Suc [0 ..< length cs])"
    unfolding ih by (simp add: add.commute add.left_commute)
  finally show ?case unfolding idx .
qed

lemma existing_versions_fresh:
  "\<forall>d \<in> set st. doc_target d \<noteq> target \<Longrightarrow> existing_versions st target = []"
  by (simp add: existing_versions_def filter_empty_conv)

text \<open>
  Claim C4. Starting from a store without a document for a tenant, environment,
  component key, scope type and scope key, a sequence of N accepted PUT requests for
  them returns the versions 1, 2, ..., N in this order. Every accepted request is given
  the version 1 + the greatest stored version of its target, and 1 when there is none.
\<close>

theorem upsert_versions_sequential:
  assumes same: "\<forall>c \<in> set calls. upsert_target (call_component_key c) (call_tenant_q c)
                   (call_env_q c) (call_body c) = target"
    and valid: "\<forall>c \<in> set calls. validate_value reg iter_errors path_repr (call_component_key c)
                   (body_get (body_value (call_body c)) (JObj [])) = None"
    and fresh: "\<forall>d \<in> set st. doc_target d \<noteq> target"
  shows "fst (upsert_sequence reg iter_errors path_repr st calls) =
           map (\<lambda>i. Inr (int i)) [1 ..< Suc (length calls)] \<and>
         (\<forall>st' now ck tenant_q env_q body.
            validate_value reg iter_errors path_repr ck (body_get (body_value body) (JObj [])) = None \<longrightarrow>
            fst (upsert_component reg iter_errors path_repr st' now ck tenant_q env_q body) =
              Inr (1 + (if existing_versions st' (upsert_target ck tenant_q env_q body) = [] then 0
                        else Max (set (existing_versions st' (upsert_target ck tenant_q env_q body))))))"
proof (intro conjI allI impI)
  have "fst (upsert_sequence reg iter_errors path_repr st calls) =
        map (\<lambda>i. Inr (py_max (existing_versions st target) 0 + 1 + int i)) [0 ..< length calls]"
    using same valid by (rule upsert_sequence_versions)
  also have "\<dots> = map (\<lambda>i. Inr (1 + int i)) [0 ..< length calls]"
    by (simp add: existing_versions_fresh [OF fresh] py_max_eq)
  also have "\<dots> = map (\<lambda>i. Inr (int i)) (map Suc [0 ..< length calls])"
    by simp
  also have "\<dots> = map (\<lambda>i. Inr (int i)) [1 ..< Suc (length calls)]"
    unfolding map_Suc_upt by simp
  finally show "fst (upsert_sequence reg iter_errors path_repr st calls) =
           map (\<lambda>i. Inr (int i)) [1 ..< Suc (length calls)]" .
next
  fix st' now ck tenant_q env_q and body :: upsert_body
  assume "validate_value reg iter_errors path_repr ck (body_get (body_value body) (JObj [])) = None"
  then show "fst (upsert_component reg iter_errors path_repr st' now ck tenant_q env_q body) =
              Inr (1 + (if existing_versions st' (upsert_target ck tenant_q env_q body) = [] then 0
                        else Max (set (existing_versions st' (upsert_target ck tenant_q env_q body)))))"
    by (simp add: upsert_component_accepted py_max_eq)
qed

theorem upsert_versions_sequential_witness:
  "fst (upsert_sequence Map.empty (\<lambda>schema v. [] :: (nat \<times> string) list) (\<lambda>p :: nat. ''p'')
     [\<lparr>tenant = ''default'', env = ''dev'', componentKey = ''banner'',
        scopeType = ''page'', scopeKey = ''home'', version = 7,
        val = JObj [], createdAt = 0, createdBy = ''dev''\<rparr>]
     [\<lparr>call_component_key = ''banner'', call_tenant_q = None, call_env_q = None,
        call_body = \<lparr>body_tenant = None, body_env = None,
           body_scopeType = None, body_scopeKey = None,
           body_value = Some (JObj [(''a'', JNum 1)]), body_updatedBy = None\<rparr>,
        call_now = 1\<rparr>,
      \<lparr>call_component_key = ''banner'', call_tenant_q = Some ''default'', call_env_q = Some [],
        call_body = \<lparr>body_tenant = None, body_env = Some ''dev'',
           body_scopeType = Some ''global'', body_scopeKey = None,
           body_value = Some (JObj [(''a'', JNum 2)]), body_updatedBy = None\<rparr>,
        call_now = 2\<rparr>,
      \<lparr>call_component_key = ''banner'', call_tenant_q = None, call_env_q = Some ''dev'',
        call_body = \<lparr>body_tenant = Some ''default'', body_env = None,
           body_scopeType = None, body_scopeKey = Some ''*'',
           body_value = None, body_updatedBy = Some ''ann''\<rparr>,
        call_now = 3\<rparr>]) =
   [Inr 1, Inr 2, Inr 3]"
proof -
  have h1: "\<forall>c \<in> set [\<lparr>call_component_key = ''banner'', call_tenant_q = None, call_env_q = None,
        call_body = \<lparr>body_tenant = None, body_env = None,
           body_scopeType = None, body_scopeKey = None,
           body_value = Some (JObj [(''a'', JNum 1)]), body_updatedBy = None\<rparr>,
        call_now = 1\<rparr>,
      \<lparr>call_component_key = ''banner'', call_tenant_q = Some ''default'', call_env_q = Some [],
        call_body = \<lparr>body_tenant = None, body_env = Some ''dev'',
           body_scopeType = Some ''global'', body_scopeKey = None,
           body_value = Some (JObj [(''a'', JNum 2)]), body_updatedBy = None\<rparr>,
        call_now = 2\<rparr>,
      \<lparr>call_component_key = ''banner'', call_tenant_q = None, call_env_q = Some ''dev'',
        call_body = \<lparr>body_tenant = Some ''default'', body_env = None,
           body_scopeType = None, body_scopeKey = Some ''*'',
           body_value = None, body_updatedBy = Some ''ann''\<rparr>,
        call_now = 3\<rparr>].
      upsert_target (call_component_key c) (call_tenant_q c) (call_env_q c) (call_body c) =
      (''default'', ''dev'', ''banner'', ''global'', ''*'')"
    by (simp add: upsert_target_def body_get_def or_else_def)
  have h2: "\<forall>c \<in> set [\<lparr>call_component_key = ''banner'', call_tenant_q = None, call_env_q = None,
        call_body = \<lparr>body_tenant = None, body_env = None,
           body_scopeType = None, body_scopeKey = None,
           body_value = Some (JObj [(''a'', JNum 1)]), body_updatedBy = None\<rparr>,
        call_now = 1\<rparr>,
      \<lparr>call_component_key = ''banner'', call_tenant_q = Some ''default'', call_env_q = Some [],
        call_body = \<lparr>body_tenant = None, body_env = Some ''dev'',
           body_scopeType = Some ''global'', body_scopeKey = None,
           body_value = Some (JObj [(''a'', JNum 2)]), body_updatedBy = None\<rparr>,
        call_now = 2\<rparr>,
      \<lparr>call_component_key = ''banner'', call_tenant_q = None, call_env_q = Some ''dev'',
        call_body = \<lparr>body_tenant = Some ''default'', body_env = None,
           body_scopeType = None, body_scopeKey = Some ''*'',
           body_value = None, body_updatedBy = Some ''ann''\<rparr>,
        call_now = 3\<rparr>].
      validate_value Map.empty (\<lambda>schema v. [] :: (nat \<times> string) list) (\<lambda>p :: nat. ''p'') (call_component_key c)
        (body_get (body_value (call_body c)) (JObj [])) = None"
    by (simp add: validate_value_def)
  have h3: "\<forall>d \<in> set [\<lparr>tenant = ''default'', env = ''dev'', componentKey = ''banner'',
     scopeType = ''page'', scopeKey = ''home'', version = 7,
     val = JObj [], createdAt = 0, createdBy = ''dev''\<rparr>].
      doc_target d \<noteq> (''default'', ''dev'', ''banner'', ''global'', ''*'')"
    by (simp add: doc_target_def)
  have ev: "map (\<lambda>i. Inr (int i) :: http_error + int) [1 ..< Suc (length [\<lparr>call_component_key = ''banner'', call_tenant_q = None, call_env_q = None,
        call_body = \<lparr>body_tenant = None, body_env = None,
           body_scopeType = None, body_scopeKey = None,
           body_value = Some (JObj [(''a'', JNum 1)]), body_updatedBy = None\<rparr>,
        call_now = 1\<rparr>,
      \<lparr>call_component_key = ''banner'', call_tenant_q = Some ''default'', call_env_q = Some [],
        call_body = \<lparr>body_tenant = None, body_env = Some ''dev'',
           body_scopeType = Some ''global'', body_scopeKey = None,
           body_value = Some (JObj [(''a'', JNum 2)]), body_updatedBy = None\<rparr>,
        call_now = 2\<rparr>,
      \<lparr>call_component_key = ''banner'', call_tenant_q = None, call_env_q = Some ''dev'',
        call_body = \<lparr>body_tenant = Some ''default'', body_env = None,
           body_scopeType = None, body_scopeKey = Some ''*'',
           body_value = None, body_updatedBy = Some ''ann''\<rparr>,
        call_now = 3\<rparr>])] =
      [Inr 1, Inr 2, Inr 3]"
    by (simp add: upt_rec)
  show ?thesis
    by (rule trans [OF upsert_versions_sequential [OF h1 h2 h3, THEN conjunct1] ev])
qed

end
